theory Spec2Isabelle
  imports Main "HOL-Library.List_Lexorder" "HOL-Library.Multiset"
begin

section \<open>Online feature retrieval of \<open>feast/feature_store.py\<close>\<close>

text \<open>
  The theory embeds the online read path of \<open>FeatureStore._get_online_features\<close> and the
  module-level helpers it calls. Python exceptions are values of the type \<open>error\<close>; a
  function that may raise returns \<open>error + 'a\<close> with \<open>Inl\<close> for the exception.
  Python dictionaries whose iteration order is observable are association lists in
  insertion order; dictionaries that are only looked up are maps.
\<close>

subsection \<open>Data model\<close>

datatype error =
    ValueError string
  | KeyError string
  | IndexError
  | TypeError
  | FeatureNameCollisionError "string list" bool
  | FeatureViewNotFoundException string
  | EntityNotFoundException string
  | RequestDataNotFoundInEntityRowsException "string list"
  | OnlineReadError string

text \<open>\<open>FieldStatus\<close>: the two members of the protobuf enum that this path writes.\<close>

datatype field_status = PRESENT | NOT_FOUND

text \<open>
  \<open>google.protobuf.Timestamp\<close>. The constructor call \<open>Timestamp()\<close> of the source builds
  the default message, whose two fields are zero; it reads no clock.
\<close>

record timestamp =
  seconds :: int
  nanos :: int

definition Timestamp :: timestamp where
  "Timestamp = \<lparr>seconds = 0, nanos = 0\<rparr>"

text \<open>
  \<open>GetOnlineFeaturesResponse.FeatureVector\<close> and \<open>GetOnlineFeaturesResponse\<close>
  (\<open>feature_names\<close> is \<open>metadata.feature_names.val\<close>; \<open>fv_values\<close> is the field
  \<open>values\<close>). The protobuf \<open>Value\<close> message is the type parameter \<open>'v\<close>.
\<close>

record 'v feature_vector =
  fv_values :: "'v list"
  statuses :: "field_status list"
  event_timestamps :: "timestamp list"

record 'v online_features_response =
  feature_names :: "string list"
  results :: "'v feature_vector list"

subsection \<open>\<open>apply_list_mapping\<close>\<close>

text \<open>
  The output list starts as \<open>[None] * output_len\<close>, so its cells are options. The inner loop
  \<open>for idx in destinations: output[idx] = elem\<close> is \<open>assign_all\<close>; an index beyond the
  output raises \<open>IndexError\<close>. The outer loop runs over \<open>zip(lst, mapping_indexes)\<close> and
  therefore stops at the shorter of the two. The indexes come from \<open>enumerate\<close> and are
  natural numbers.
\<close>

fun assign_all :: "'a \<Rightarrow> nat list \<Rightarrow> 'a option list \<Rightarrow> error + 'a option list" where
  "assign_all elem [] output = Inr output"
| "assign_all elem (idx # destinations) output =
     (if idx < length output then assign_all elem destinations (output[idx := Some elem])
      else Inl IndexError)"

fun scatter :: "'a list \<Rightarrow> nat list list \<Rightarrow> 'a option list \<Rightarrow> error + 'a option list" where
  "scatter (elem # lst) (destinations # mapping_indexes) output =
     (case assign_all elem destinations output of
        Inl e \<Rightarrow> Inl e
      | Inr output' \<Rightarrow> scatter lst mapping_indexes output')"
| "scatter _ _ output = Inr output"

definition apply_list_mapping :: "'a list \<Rightarrow> nat list list \<Rightarrow> error + 'a option list" where
  "apply_list_mapping lst mapping_indexes =
     scatter lst mapping_indexes (replicate (sum_list (map length mapping_indexes)) None)"

text \<open>
  The index lists of a unique-key set over \<open>N\<close> rows: every row index below \<open>N\<close> occurs in
  exactly one list, exactly once.
\<close>

definition partitions :: "nat list list \<Rightarrow> nat \<Rightarrow> bool" where
  "partitions indexes N = (sort (concat indexes) = [0..<N])"

subsection \<open>\<open>_read_from_online_store\<close>\<close>

text \<open>
  One row of \<open>provider.online_read\<close> is a pair of an optional write time and an optional
  dictionary from feature names to values. \<open>read_row_proto\<close> is the body of the loop over
  \<open>read_rows\<close>; \<open>FromDatetime\<close> (the protobuf conversion of a \<open>datetime\<close>) and
  \<open>null_value\<close> (the empty \<open>Value()\<close>) are parameters.
\<close>

type_synonym ('dt, 'v) read_row = "'dt option \<times> (string \<rightharpoonup> 'v) option"

definition read_row_proto ::
  "('dt \<Rightarrow> timestamp) \<Rightarrow> 'v \<Rightarrow> string list \<Rightarrow> ('dt, 'v) read_row \<Rightarrow>
   timestamp list \<times> field_status list \<times> 'v list" where
  "read_row_proto FromDatetime null_value requested_features read_row =
     (let row_ts = fst read_row;
          feature_data = snd read_row;
          row_ts_proto = (case row_ts of None \<Rightarrow> Timestamp | Some ts \<Rightarrow> FromDatetime ts);
          event_timestamps = replicate (length requested_features) row_ts_proto
      in case feature_data of
           None \<Rightarrow>
             (event_timestamps,
              replicate (length requested_features) NOT_FOUND,
              replicate (length requested_features) null_value)
         | Some fd \<Rightarrow>
             (event_timestamps,
              map (\<lambda>feature_name. case fd feature_name of
                     None \<Rightarrow> NOT_FOUND | Some v \<Rightarrow> PRESENT) requested_features,
              map (\<lambda>feature_name. case fd feature_name of
                     None \<Rightarrow> null_value | Some v \<Rightarrow> v) requested_features))"

text \<open>
  The provider is a function from the table, the entity keys (join keys and entity values of
  each row) and the requested features to the rows it read, or to an error.
\<close>

type_synonym 'v entity_key = "string list \<times> 'v list"

definition read_from_online_store ::
  "('t \<Rightarrow> 'v entity_key list \<Rightarrow> string list \<Rightarrow> error + ('dt, 'v) read_row list) \<Rightarrow>
   ('dt \<Rightarrow> timestamp) \<Rightarrow> 'v \<Rightarrow>
   (string \<times> 'v) list list \<Rightarrow> string list \<Rightarrow> 't \<Rightarrow>
   error + (timestamp list \<times> field_status list \<times> 'v list) list" where
  "read_from_online_store online_read FromDatetime null_value entity_rows requested_features table =
     (let entity_key_protos = map (\<lambda>row. (map fst row, map snd row)) entity_rows
      in case online_read table entity_key_protos requested_features of
           Inl e \<Rightarrow> Inl e
         | Inr read_rows \<Rightarrow>
             Inr (map (read_row_proto FromDatetime null_value requested_features) read_rows))"

subsection \<open>Feature views\<close>

text \<open>
  \<open>FeatureViewProjection\<close> (\<open>name_to_use\<close> is the value of the method of that name) and
  the attributes of \<open>BaseFeatureView\<close> and \<open>FeatureView\<close> that the online path reads.
  \<open>join_key_map\<close> is a dictionary, kept in insertion order.
\<close>

record projection =
  proj_name :: string
  name_to_use :: string
  proj_features :: "string list"
  join_key_map :: "(string \<times> string) list"

record base_feature_view =
  name :: string
  projection :: projection

record feature_view = base_feature_view +
  entities :: "string list"

subsection \<open>\<open>_populate_response_from_feature_data\<close>\<close>

text \<open>
  \<open>zip_star\<close> is \<open>zip(*xss)\<close>: the transposition, cut at the shortest list, and empty for no
  list at all. \<open>FeatureVector\<close> is the protobuf constructor, which rejects a \<open>None\<close> among
  its repeated fields with \<open>TypeError\<close>. \<open>scatter_feature\<close> is the body of the loop over
  the features, and \<open>scattered_vectors\<close> the loop. The unpacking
  \<open>timestamps, statuses, values = zip(*feature_data)\<close> raises \<open>ValueError\<close> when
  \<open>feature_data\<close> is empty. \<open>scattered_from\<close> states what a scattered vector owes to the
  per-key vectors it was built from.
\<close>

definition zip_star :: "'a list list \<Rightarrow> 'a list list" where
  "zip_star xss =
     (if xss = [] then []
      else map (\<lambda>i. map (\<lambda>xs. xs ! i) xss) [0..<min_list (map length xss)])"

definition FeatureVector ::
  "'v option list \<Rightarrow> field_status option list \<Rightarrow> timestamp option list \<Rightarrow>
   error + 'v feature_vector" where
  "FeatureVector vs ss ts =
     (case (those vs, those ss, those ts) of
        (Some vs', Some ss', Some ts') \<Rightarrow>
          Inr \<lparr>fv_values = vs', statuses = ss', event_timestamps = ts'\<rparr>
      | _ \<Rightarrow> Inl TypeError)"

definition scatter_feature ::
  "timestamp list \<times> field_status list \<times> 'v list \<Rightarrow> nat list list \<Rightarrow>
   error + 'v feature_vector" where
  "scatter_feature vectors indexes =
     (case vectors of (timestamp_vector, statuses_vector, values_vector) \<Rightarrow>
      case apply_list_mapping values_vector indexes of Inl e \<Rightarrow> Inl e | Inr vs \<Rightarrow>
      case apply_list_mapping statuses_vector indexes of Inl e \<Rightarrow> Inl e | Inr ss \<Rightarrow>
      case apply_list_mapping timestamp_vector indexes of Inl e \<Rightarrow> Inl e | Inr ts \<Rightarrow>
      FeatureVector vs ss ts)"

fun scattered_vectors ::
  "(timestamp list \<times> field_status list \<times> 'v list) list \<Rightarrow> nat list list \<Rightarrow>
   error + 'v feature_vector list" where
  "scattered_vectors [] indexes = Inr []"
| "scattered_vectors (vectors # rest) indexes =
     (case scatter_feature vectors indexes of Inl e \<Rightarrow> Inl e | Inr fv \<Rightarrow>
      case scattered_vectors rest indexes of Inl e \<Rightarrow> Inl e | Inr fvs \<Rightarrow> Inr (fv # fvs))"

definition scattered_from ::
  "nat list list \<Rightarrow> nat \<Rightarrow> timestamp list \<times> field_status list \<times> 'v list \<Rightarrow>
   'v feature_vector \<Rightarrow> bool" where
  "scattered_from indexes N vectors fv \<longleftrightarrow>
     length (fv_values fv) = N \<and> length (statuses fv) = N \<and>
     length (event_timestamps fv) = N \<and>
     (\<forall>i<length indexes. \<forall>j\<in>set (indexes ! i).
        fv_values fv ! j = snd (snd vectors) ! i \<and>
        statuses fv ! j = fst (snd vectors) ! i \<and>
        event_timestamps fv ! j = fst vectors ! i)"

definition populate_response_from_feature_data ::
  "(timestamp list \<times> field_status list \<times> 'v list) list \<Rightarrow> nat list list \<Rightarrow>
   'v online_features_response \<Rightarrow> bool \<Rightarrow> string list \<Rightarrow> 'a feature_view_scheme \<Rightarrow>
   error + 'v online_features_response" where
  "populate_response_from_feature_data feature_data indexes online_features_response
     full_feature_names requested_features table =
     (let requested_feature_refs =
            map (\<lambda>feature_name.
                   if full_feature_names
                   then name_to_use (projection table) @ ''__'' @ feature_name
                   else feature_name) requested_features
      in if feature_data = [] then Inl (ValueError ''not enough values to unpack (expected 3, got 0)'')
         else
           let timestamps = map fst feature_data;
               statuses = map (\<lambda>row. fst (snd row)) feature_data;
               vals = map (\<lambda>row. snd (snd row)) feature_data
           in case scattered_vectors
                     (zip (zip_star timestamps) (zip (zip_star statuses) (zip_star vals)))
                     indexes of
                Inl e \<Rightarrow> Inl e
              | Inr fvs \<Rightarrow>
                  Inr \<lparr>feature_names = feature_names online_features_response @ requested_feature_refs,
                       results = results online_features_response @ fvs\<rparr>)"

subsection \<open>Dictionaries in insertion order\<close>

text \<open>
  \<open>dict_set\<close> is the assignment \<open>d[k] = v\<close>: an existing key keeps its position and takes the new
  value, a new key goes to the end. \<open>dict_of_items\<close> is a dictionary comprehension over a list
  of key-value pairs, and \<open>dict_get d k dflt\<close> is \<open>d.get(k, dflt)\<close>.
\<close>

fun dict_set :: "'k \<Rightarrow> 'w \<Rightarrow> ('k \<times> 'w) list \<Rightarrow> ('k \<times> 'w) list" where
  "dict_set k v [] = [(k, v)]"
| "dict_set k v ((k', v') # d) =
     (if k' = k then (k', v) # d else (k', v') # dict_set k v d)"

definition dict_of_items :: "('k \<times> 'w) list \<Rightarrow> ('k \<times> 'w) list" where
  "dict_of_items items = foldl (\<lambda>d item. dict_set (fst item) (snd item) d) [] items"

definition dict_get :: "('k \<times> 'w) list \<Rightarrow> 'k \<Rightarrow> 'w \<Rightarrow> 'w" where
  "dict_get d k dflt = (case map_of d k of None \<Rightarrow> dflt | Some v \<Rightarrow> v)"

subsection \<open>\<open>_get_table_entity_values\<close> and \<open>_get_unique_entities\<close>\<close>

text \<open>
  \<open>lookup_all m names\<close> is the comprehension \<open>[m[n] for n in names]\<close>, which raises
  \<open>KeyError\<close> at the first name that is not a key of \<open>m\<close>.
\<close>

fun lookup_all :: "(string \<rightharpoonup> string) \<Rightarrow> string list \<Rightarrow> error + string list" where
  "lookup_all m [] = Inr []"
| "lookup_all m (n # names) =
     (case m n of
        None \<Rightarrow> Inl (KeyError n)
      | Some v \<Rightarrow> (case lookup_all m names of Inl e \<Rightarrow> Inl e | Inr vs \<Rightarrow> Inr (v # vs)))"

definition get_table_entity_values ::
  "'a feature_view_scheme \<Rightarrow> (string \<rightharpoonup> string) \<Rightarrow> (string \<times> 'v list) list \<Rightarrow>
   error + (string \<times> 'v list) list" where
  "get_table_entity_values table entity_name_to_join_key_map join_key_proto_values =
     (case lookup_all entity_name_to_join_key_map (entities table) of
        Inl e \<Rightarrow> Inl e
      | Inr table_join_keys \<Rightarrow>
          let alias_to_join_key_map =
                dict_of_items (map (\<lambda>item. (snd item, fst item)) (join_key_map (projection table)));
              entity_values =
                dict_of_items
                  (map (\<lambda>item. (dict_get alias_to_join_key_map (fst item) (fst item), snd item))
                     (filter (\<lambda>item. dict_get alias_to_join_key_map (fst item) (fst item)
                                        \<in> set table_join_keys)
                        join_key_proto_values))
          in Inr entity_values)"

text \<open>
  \<open>groupby\<close> is \<open>itertools.groupby\<close>: one pair of a key and the run of consecutive elements
  that have it, the key being that of the run's first element.
\<close>

function groupby :: "('a \<Rightarrow> 'b) \<Rightarrow> 'a list \<Rightarrow> ('b \<times> 'a list) list" where
  "groupby f [] = []"
| "groupby f (x # xs) =
     (f x, x # takeWhile (\<lambda>y. f y = f x) xs) # groupby f (dropWhile (\<lambda>y. f y = f x) xs)"
  by pat_completeness auto
termination
  by (relation "measure (\<lambda>(f, xs). length xs)") (auto simp: length_dropWhile_le less_Suc_eq_le)

text \<open>
  The rows are the tuples of \<open>zip(*table_entity_values.values())\<close>, numbered by \<open>enumerate\<close>.
  The sort key of a row is the tuple of the native values of its cells
  (\<open>getattr(x, x.WhichOneof("val"))\<close>, the parameter \<open>native\<close>); tuples compare
  lexicographically, and \<open>list.sort\<close> is stable, as \<open>sort_key\<close> is. The groups are the runs of
  equal rows. The final unpacking \<open>unique_entities, indexes = tuple(zip(*groups))\<close> raises
  \<open>ValueError\<close> when there is no group.
\<close>

definition get_unique_entities ::
  "('v \<Rightarrow> 'k::linorder) \<Rightarrow> 'a feature_view_scheme \<Rightarrow> (string \<times> 'v list) list \<Rightarrow>
   (string \<rightharpoonup> string) \<Rightarrow> error + ((string \<times> 'v) list list \<times> nat list list)" where
  "get_unique_entities native table join_key_values entity_name_to_join_key_map =
     (case get_table_entity_values table entity_name_to_join_key_map join_key_values of
        Inl e \<Rightarrow> Inl e
      | Inr table_entity_values \<Rightarrow>
          let keys = map fst table_entity_values;
              rowise = sort_key (\<lambda>row. map native (snd row))
                         (List.enumerate 0 (zip_star (map snd table_entity_values)));
              groups = map (\<lambda>kg. (zip keys (fst kg), map fst (snd kg))) (groupby snd rowise)
          in if groups = [] then Inl (ValueError ''not enough values to unpack (expected 2, got 0)'')
             else Inr (map fst groups, map snd groups))"

subsection \<open>Strings and counters\<close>

text \<open>
  \<open>str_split sep s\<close> is \<open>s.split(sep)\<close> for a separator of one character: the pieces between
  the occurrences of \<open>sep\<close>, one more than there are occurrences. \<open>endswith\<close> is
  \<open>str.endswith\<close>. \<open>Counter xs\<close> is \<open>Counter(xs).items()\<close>: each distinct element with its
  number of occurrences, in order of first occurrence.
\<close>

fun str_split :: "char \<Rightarrow> string \<Rightarrow> string list" where
  "str_split sep [] = [[]]"
| "str_split sep (c # cs) =
     (if c = sep then [] # str_split sep cs
      else (case str_split sep cs of
              [] \<Rightarrow> [[c]]
            | p # ps \<Rightarrow> (c # p) # ps))"

definition endswith :: "string \<Rightarrow> string \<Rightarrow> bool" where
  "endswith s suffix \<longleftrightarrow>
     length suffix \<le> length s \<and> drop (length s - length suffix) s = suffix"

fun counter_add :: "'a \<Rightarrow> ('a \<times> nat) list \<Rightarrow> ('a \<times> nat) list" where
  "counter_add x [] = [(x, 1)]"
| "counter_add x ((y, n) # c) =
     (if y = x then (y, Suc n) # c else (y, n) # counter_add x c)"

definition Counter :: "'a list \<Rightarrow> ('a \<times> nat) list" where
  "Counter xs = foldl (\<lambda>c x. counter_add x c) [] xs"

subsection \<open>\<open>_validate_feature_refs\<close>\<close>

text \<open>
  \<open>second_parts\<close> is the comprehension \<open>[ref.split(":")[1] for ref in feature_refs]\<close>, which
  raises \<open>IndexError\<close> at a reference without a colon. The function returns nothing; the
  model returns the unit value when it does not raise.
\<close>

fun second_parts :: "string list \<Rightarrow> error + string list" where
  "second_parts [] = Inr []"
| "second_parts (ref # refs) =
     (let parts = str_split CHR '':'' ref
      in if length parts \<le> 1 then Inl IndexError
         else (case second_parts refs of
                 Inl e \<Rightarrow> Inl e
               | Inr names \<Rightarrow> Inr (parts ! 1 # names)))"

definition validate_feature_refs :: "string list \<Rightarrow> bool \<Rightarrow> error + unit" where
  "validate_feature_refs feature_refs full_feature_names =
     (case (if full_feature_names
            then Inr (map fst (filter (\<lambda>item. snd item > 1) (Counter feature_refs)))
            else (case second_parts feature_refs of
                    Inl e \<Rightarrow> Inl e
                  | Inr names \<Rightarrow>
                      let collided_feature_names =
                            map fst (filter (\<lambda>item. snd item > 1) (Counter names))
                      in Inr (concat (map (\<lambda>feature_name.
                                filter (\<lambda>ref. endswith ref ('':'' @ feature_name)) feature_refs)
                              collided_feature_names)))) of
        Inl e \<Rightarrow> Inl e
      | Inr collided_feature_refs \<Rightarrow>
          if length collided_feature_refs > 0
          then Inl (FeatureNameCollisionError collided_feature_refs full_feature_names)
          else Inr ())"

text \<open>
  The bare feature name of a reference \<open>table:feature\<close>, as the validation computes it: the
  second piece of the reference split at the colons.
\<close>

definition bare_name :: "string \<Rightarrow> string" where
  "bare_name ref = str_split CHR '':'' ref ! 1"

subsection \<open>Request and on-demand feature views\<close>

text \<open>
  \<open>RequestFeatureView\<close> with the names of its features, and \<open>OnDemandFeatureView\<close> with the
  projections of its source feature views (the values of the dictionary
  \<open>source_feature_view_projections\<close>, in order), the keys of \<open>get_request_data_schema()\<close>
  and the transformation \<open>get_transformed_features_df\<close>, a function from a data frame and
  the naming mode to a data frame. A data frame is the list of its columns, each a name with
  one value per row.
\<close>

type_synonym 'v dataframe = "(string \<times> 'v list) list"

record request_feature_view = base_feature_view +
  features :: "string list"

record 'v on_demand_feature_view = base_feature_view +
  source_feature_view_projections :: "projection list"
  request_data_schema :: "string list"
  get_transformed_features_df :: "'v dataframe \<Rightarrow> bool \<Rightarrow> 'v dataframe"

subsection \<open>\<open>_group_feature_refs\<close>\<close>

text \<open>
  \<open>fold_result\<close> runs a loop whose body may raise: the first error ends it.
  \<open>index_views\<close> is the comprehension \<open>{view.projection.name_to_use(): view for view in views}\<close>;
  these dictionaries are only looked up. A \<open>defaultdict(set)\<close> is an association list from a
  view name to the feature names added for it; \<open>defaultdict_add k x d\<close> is \<open>d[k].add(x)\<close>.
  The feature names of one view are kept without duplicates in the order of their first
  addition, which is one of the orders in which Python may iterate over the set.
\<close>

fun fold_result :: "('a \<Rightarrow> 's \<Rightarrow> error + 's) \<Rightarrow> 'a list \<Rightarrow> 's \<Rightarrow> error + 's" where
  "fold_result f [] s = Inr s"
| "fold_result f (x # xs) s =
     (case f x s of Inl e \<Rightarrow> Inl e | Inr s' \<Rightarrow> fold_result f xs s')"

definition index_views :: "'a base_feature_view_scheme list \<Rightarrow> (string \<rightharpoonup> 'a base_feature_view_scheme)" where
  "index_views views = foldl (\<lambda>m view. m(name_to_use (projection view) \<mapsto> view)) Map.empty views"

definition set_add :: "'a \<Rightarrow> 'a list \<Rightarrow> 'a list" where
  "set_add x s = (if x \<in> set s then s else s @ [x])"

fun defaultdict_add :: "string \<Rightarrow> 'a \<Rightarrow> (string \<times> 'a list) list \<Rightarrow> (string \<times> 'a list) list" where
  "defaultdict_add k x [] = [(k, [x])]"
| "defaultdict_add k x ((k', s) # d) =
     (if k' = k then (k', set_add x s) # d else (k', s) # defaultdict_add k x d)"

record group_state =
  views_features :: "(string \<times> string list) list"
  request_views_features :: "(string \<times> string list) list"
  request_view_refs :: "string list"
  on_demand_view_features :: "(string \<times> string list) list"

text \<open>
  The body of the loop over the references. \<open>view_name, feat_name = ref.split(":")\<close> raises
  \<open>ValueError\<close> unless the reference has exactly one colon. \<open>projection.get_feature\<close>, called
  for validation only, is the parameter \<open>get_feature\<close>: it returns the error it raises, if
  any. The branches are tried in the order of the source: feature views, then on-demand
  feature views, then request feature views.
\<close>

definition group_feature_ref ::
  "(projection \<Rightarrow> string \<Rightarrow> error option) \<Rightarrow>
   (string \<rightharpoonup> 'a feature_view_scheme) \<Rightarrow>
   (string \<rightharpoonup> 'b request_feature_view_scheme) \<Rightarrow>
   (string \<rightharpoonup> ('v, 'c) on_demand_feature_view_scheme) \<Rightarrow>
   string \<Rightarrow> group_state \<Rightarrow> error + group_state" where
  "group_feature_ref get_feature view_index request_view_index on_demand_view_index ref st =
     (case str_split CHR '':'' ref of
        [view_name, feat_name] \<Rightarrow>
          (case view_index view_name of
             Some view \<Rightarrow>
               (case get_feature (projection view) feat_name of
                  Some e \<Rightarrow> Inl e
                | None \<Rightarrow>
                    Inr (st\<lparr>views_features :=
                               defaultdict_add view_name feat_name (views_features st)\<rparr>))
           | None \<Rightarrow>
               (case on_demand_view_index view_name of
                  Some odfv \<Rightarrow>
                    (case get_feature (projection odfv) feat_name of
                       Some e \<Rightarrow> Inl e
                     | None \<Rightarrow>
                         Inr (st\<lparr>on_demand_view_features :=
                                    defaultdict_add view_name feat_name (on_demand_view_features st),
                                  views_features :=
                                    foldl (\<lambda>d input_fv_projection.
                                             foldl (\<lambda>d' input_feat.
                                                      defaultdict_add (proj_name input_fv_projection)
                                                        input_feat d')
                                               d (proj_features input_fv_projection))
                                      (views_features st)
                                      (source_feature_view_projections odfv)\<rparr>))
                | None \<Rightarrow>
                    (case request_view_index view_name of
                       Some request_view \<Rightarrow>
                         (case get_feature (projection request_view) feat_name of
                            Some e \<Rightarrow> Inl e
                          | None \<Rightarrow>
                              Inr (st\<lparr>request_views_features :=
                                         defaultdict_add view_name feat_name
                                           (request_views_features st),
                                       request_view_refs := set_add ref (request_view_refs st)\<rparr>))
                     | None \<Rightarrow> Inl (FeatureViewNotFoundException view_name))))
      | _ \<Rightarrow> Inl (ValueError ''wrong number of values to unpack (expected 2)''))"

text \<open>
  The three result lists pair each view name of a dictionary with the view of that name;
  \<open>index[view_name]\<close> raises \<open>KeyError\<close> for a name that the index does not have.
\<close>

fun views_with_features ::
  "(string \<rightharpoonup> 'w) \<Rightarrow> (string \<times> string list) list \<Rightarrow> error + ('w \<times> string list) list" where
  "views_with_features index [] = Inr []"
| "views_with_features index ((view_name, feature_names') # d) =
     (case index view_name of
        None \<Rightarrow> Inl (KeyError view_name)
      | Some view \<Rightarrow>
          (case views_with_features index d of
             Inl e \<Rightarrow> Inl e
           | Inr result \<Rightarrow> Inr ((view, feature_names') # result)))"

definition group_feature_refs ::
  "(projection \<Rightarrow> string \<Rightarrow> error option) \<Rightarrow>
   string list \<Rightarrow> 'a feature_view_scheme list \<Rightarrow> 'b request_feature_view_scheme list \<Rightarrow>
   ('v, 'c) on_demand_feature_view_scheme list \<Rightarrow>
   error + (('a feature_view_scheme \<times> string list) list \<times>
            (('v, 'c) on_demand_feature_view_scheme \<times> string list) list \<times>
            ('b request_feature_view_scheme \<times> string list) list \<times>
            string list)" where
  "group_feature_refs get_feature refs all_feature_views all_request_feature_views
     all_on_demand_feature_views =
     (let view_index = index_views all_feature_views;
          request_view_index = index_views all_request_feature_views;
          on_demand_view_index = index_views all_on_demand_feature_views
      in case fold_result
                (group_feature_ref get_feature view_index request_view_index on_demand_view_index)
                refs
                \<lparr>views_features = [], request_views_features = [], request_view_refs = [],
                 on_demand_view_features = []\<rparr> of
           Inl e \<Rightarrow> Inl e
         | Inr st \<Rightarrow>
             (case views_with_features view_index (views_features st) of
                Inl e \<Rightarrow> Inl e
              | Inr fvs_result \<Rightarrow>
             (case views_with_features request_view_index (request_views_features st) of
                Inl e \<Rightarrow> Inl e
              | Inr request_fvs_result \<Rightarrow>
             (case views_with_features on_demand_view_index (on_demand_view_features st) of
                Inl e \<Rightarrow> Inl e
              | Inr odfvs_result \<Rightarrow>
                  Inr (fvs_result, odfvs_result, request_fvs_result, request_view_refs st)))))"

subsection \<open>\<open>_get_features\<close> and \<open>_validate_entity_values\<close>\<close>

text \<open>
  The argument \<open>features\<close> is a list of references or a \<open>FeatureService\<close>; a feature service
  object is truthy, so \<open>not _features\<close> holds for the empty list only. The registry lookup
  \<open>get_feature_service\<close> is a parameter.
\<close>

record feature_service =
  fs_name :: string
  feature_view_projections :: "projection list"

datatype features_arg = FeatureList "string list" | FeatureServiceArg feature_service

definition get_features ::
  "(string \<Rightarrow> error + feature_service) \<Rightarrow> features_arg \<Rightarrow> error + string list" where
  "get_features get_feature_service fs =
     (case fs of
        FeatureList refs \<Rightarrow>
          if refs = [] then Inl (ValueError ''No features specified for retrieval'')
          else Inr refs
      | FeatureServiceArg service \<Rightarrow>
          (case get_feature_service (fs_name service) of
             Inl e \<Rightarrow> Inl e
           | Inr feature_service_from_registry \<Rightarrow>
               Inr (concat (map (\<lambda>p. map (\<lambda>f. name_to_use p @ '':'' @ f) (proj_features p))
                              (feature_view_projections feature_service_from_registry)))))"

text \<open>
  \<open>set_of_row_lengths\<close> is the set of the column lengths, here without duplicates;
  \<open>set.pop()\<close> on the empty set raises \<open>KeyError\<close>.
\<close>

definition validate_entity_values :: "(string \<times> 'v list) list \<Rightarrow> error + nat" where
  "validate_entity_values join_key_values =
     (let set_of_row_lengths = remdups (map (\<lambda>item. length (snd item)) join_key_values)
      in if length set_of_row_lengths > 1
         then Inl (ValueError ''All entity rows must have the same columns.'')
         else (case set_of_row_lengths of
                 [] \<Rightarrow> Inl (KeyError ''pop from an empty set'')
               | n # _ \<Rightarrow> Inr n))"

subsection \<open>Result names, request data and entity rows\<close>

text \<open>
  \<open>replace_colon\<close> is \<open>ref.replace(":", "__")\<close> and \<open>rpartition_last sep s\<close> is
  \<open>s.rpartition(sep)[-1]\<close>: what follows the last occurrence of \<open>sep\<close>, or all of \<open>s\<close> when
  there is none. Sets of names are lists without duplicates.
\<close>

definition replace_colon :: "string \<Rightarrow> string" where
  "replace_colon s = concat (map (\<lambda>c. if c = CHR '':'' then ''__'' else [c]) s)"

definition rpartition_last :: "string \<Rightarrow> string \<Rightarrow> string" where
  "rpartition_last sep s =
     (let starts = filter (\<lambda>i. take (length sep) (drop i s) = sep)
                     [0..<Suc (length s - length sep)]
      in if length s < length sep \<or> starts = [] then s
         else drop (last starts + length sep) s)"

definition requested_result_row_names :: "string list \<Rightarrow> bool \<Rightarrow> string list" where
  "requested_result_row_names feature_refs full_feature_names =
     (let qualified = remdups (map replace_colon feature_refs)
      in if \<not> full_feature_names then remdups (map (rpartition_last ''__'') qualified)
         else qualified)"

definition get_needed_request_data ::
  "(('v, 'c) on_demand_feature_view_scheme \<times> string list) list \<Rightarrow>
   ('b request_feature_view_scheme \<times> string list) list \<Rightarrow> string list \<times> string list" where
  "get_needed_request_data grouped_odfv_refs grouped_request_fv_refs =
     (foldl (\<lambda>needed pair. foldl (\<lambda>s k. set_add k s) needed (request_data_schema (fst pair)))
        [] grouped_odfv_refs,
      foldl (\<lambda>needed pair. foldl (\<lambda>s feature. set_add feature s) needed (features (fst pair)))
        [] grouped_request_fv_refs)"

definition ensure_request_data_values_exist ::
  "string list \<Rightarrow> string list \<Rightarrow> (string \<times> 'v list) list \<Rightarrow> error + unit" where
  "ensure_request_data_values_exist needed_request_data needed_request_fv_features
     request_data_features =
     (if length needed_request_data + length needed_request_fv_features
           \<noteq> length request_data_features
      then Inl (RequestDataNotFoundInEntityRowsException
                  (filter (\<lambda>x. x \<notin> fst ` set request_data_features)
                     (needed_request_data @ needed_request_fv_features)))
      else Inr ())"

text \<open>
  The loop over the entity rows of \<open>_get_online_features\<close>: a column is request data when
  its name is needed as such, and a join key otherwise, under its own name when that is a
  join key and under the join key of the entity it names when not. Every join key is added
  to the requested result names. The state of the loop holds \<open>requested_result_row_names\<close>,
  \<open>join_key_values\<close> and \<open>request_data_features\<close>.
\<close>

record 'v entity_rows_state =
  er_result_row_names :: "string list"
  er_join_key_values :: "(string \<times> 'v list) list"
  er_request_data_features :: "(string \<times> 'v list) list"

definition split_entity_row ::
  "string list \<Rightarrow> string list \<Rightarrow> string list \<Rightarrow> (string \<rightharpoonup> string) \<Rightarrow>
   string \<times> 'v list \<Rightarrow> 'v entity_rows_state \<Rightarrow> error + 'v entity_rows_state" where
  "split_entity_row needed_request_data needed_request_fv_features join_keys_set
     entity_name_to_join_key_map item st =
     (let join_key_or_entity_name = fst item; vals = snd item
      in if join_key_or_entity_name \<in> set needed_request_data
            \<or> join_key_or_entity_name \<in> set needed_request_fv_features
         then Inr (st\<lparr>er_result_row_names :=
                        (if join_key_or_entity_name \<in> set needed_request_fv_features
                         then set_add join_key_or_entity_name (er_result_row_names st)
                         else er_result_row_names st),
                      er_request_data_features :=
                        dict_set join_key_or_entity_name vals (er_request_data_features st)\<rparr>)
         else (case (if join_key_or_entity_name \<in> set join_keys_set
                     then Inr join_key_or_entity_name
                     else (case entity_name_to_join_key_map join_key_or_entity_name of
                             None \<Rightarrow> Inl (EntityNotFoundException join_key_or_entity_name)
                           | Some join_key \<Rightarrow> Inr join_key)) of
                 Inl e \<Rightarrow> Inl e
               | Inr join_key \<Rightarrow>
                   Inr (st\<lparr>er_result_row_names := set_add join_key (er_result_row_names st),
                          er_join_key_values := dict_set join_key vals (er_join_key_values st)\<rparr>)))"

subsection \<open>\<open>_populate_result_rows_from_columnar\<close>\<close>

definition populate_result_rows_from_columnar ::
  "'v online_features_response \<Rightarrow> (string \<times> 'v list) list \<Rightarrow> 'v online_features_response" where
  "populate_result_rows_from_columnar online_features_response data =
     (let timestamp = Timestamp
      in foldl (\<lambda>response item.
                  \<lparr>feature_names = feature_names response @ [fst item],
                   results = results response @
                     [\<lparr>fv_values = snd item,
                       statuses = replicate (length (snd item)) PRESENT,
                       event_timestamps = replicate (length (snd item)) timestamp\<rparr>]\<rparr>)
           online_features_response data)"

subsection \<open>\<open>_augment_response_with_on_demand_transforms\<close>\<close>

text \<open>
  Modelled from the spec: \<open>OnlineResponse.to_df\<close> is not part of this file. It builds the
  table-like view of the response built so far: one column per feature vector, under the
  vector's name, holding the vector's values. The cells of a data frame are modelled by the
  \<open>Value\<close> messages they are converted from and to, so \<open>python_values_to_proto_values\<close> is
  the identity.
\<close>

definition to_df :: "'v online_features_response \<Rightarrow> 'v dataframe" where
  "to_df response = zip (feature_names response) (map fv_values (results response))"

text \<open>\<open>defaultdict_append k x d\<close> is \<open>d[k].append(x)\<close> on a \<open>defaultdict(list)\<close>.\<close>

fun defaultdict_append :: "string \<Rightarrow> 'a \<Rightarrow> (string \<times> 'a list) list \<Rightarrow> (string \<times> 'a list) list" where
  "defaultdict_append k x [] = [(k, [x])]"
| "defaultdict_append k x ((k', xs) # d) =
     (if k' = k then (k', xs @ [x]) # d else (k', xs) # defaultdict_append k x d)"

text \<open>
  \<open>odfv_feature_ref\<close> is the body of the loop that collects the requested output names of
  each requested on-demand view; \<open>requested_odfv_map\<close> is keyed by the view's \<open>name\<close>.
\<close>

definition odfv_feature_ref ::
  "(string \<rightharpoonup> ('v, 'c) on_demand_feature_view_scheme) \<Rightarrow> bool \<Rightarrow> string \<Rightarrow>
   (string \<times> string list) list \<Rightarrow> error + (string \<times> string list) list" where
  "odfv_feature_ref requested_odfv_map full_feature_names feature_ref odfv_feature_refs =
     (case str_split CHR '':'' feature_ref of
        [view_name, feature_name] \<Rightarrow>
          (case requested_odfv_map view_name of
             None \<Rightarrow> Inr odfv_feature_refs
           | Some odfv \<Rightarrow>
               Inr (defaultdict_append view_name
                      (if full_feature_names
                       then name_to_use (projection odfv) @ ''__'' @ feature_name
                       else feature_name)
                      odfv_feature_refs))
      | _ \<Rightarrow> Inl (ValueError ''wrong number of values to unpack (expected 2)''))"

text \<open>
  One on-demand view: its transformation runs once on the data frame of the whole initial
  response; the columns whose names were requested are appended, every row \<open>PRESENT\<close> and
  stamped with the default \<open>Timestamp()\<close>. The column names of a data frame are distinct,
  so \<open>transformed_features_df[feature]\<close> is the selected column itself.
\<close>

definition odfv_vectors ::
  "('v, 'c) on_demand_feature_view_scheme \<Rightarrow> 'v dataframe \<Rightarrow> bool \<Rightarrow> string list \<Rightarrow>
   string list \<times> 'v feature_vector list" where
  "odfv_vectors odfv initial_response_df full_feature_names refs =
     (let transformed_features_df =
            get_transformed_features_df odfv initial_response_df full_feature_names;
          selected_subset = filter (\<lambda>column. fst column \<in> set refs) transformed_features_df
      in (map fst selected_subset,
          map (\<lambda>column.
                 \<lparr>fv_values = snd column,
                  statuses = replicate (length (snd column)) PRESENT,
                  event_timestamps = replicate (length (snd column)) Timestamp\<rparr>)
            selected_subset))"

definition augment_response_with_on_demand_transforms ::
  "'v online_features_response \<Rightarrow> string list \<Rightarrow> ('v, 'c) on_demand_feature_view_scheme list \<Rightarrow>
   bool \<Rightarrow> error + 'v online_features_response" where
  "augment_response_with_on_demand_transforms online_features_response feature_refs
     requested_on_demand_feature_views full_feature_names =
     (let requested_odfv_map =
            foldl (\<lambda>m odfv. m(name odfv \<mapsto> odfv)) Map.empty requested_on_demand_feature_views
      in case fold_result (odfv_feature_ref requested_odfv_map full_feature_names)
                feature_refs [] of
           Inl e \<Rightarrow> Inl e
         | Inr odfv_feature_refs \<Rightarrow>
             let initial_response_df = to_df online_features_response
             in fold_result
                  (\<lambda>item response.
                     case requested_odfv_map (fst item) of
                       None \<Rightarrow> Inl (KeyError (fst item))
                     | Some odfv \<Rightarrow>
                         let added = odfv_vectors odfv initial_response_df full_feature_names
                                       (snd item)
                         in Inr \<lparr>feature_names = feature_names response @ fst added,
                                 results = results response @ snd added\<rparr>)
                  odfv_feature_refs online_features_response)"

subsection \<open>\<open>_drop_unneeded_columns\<close>\<close>

text \<open>
  \<open>del_at idx xs\<close> is \<open>del xs[idx]\<close>. The unneeded indices are deleted from the last to the
  first, from the names and from the results alike.
\<close>

definition del_at :: "nat \<Rightarrow> 'a list \<Rightarrow> error + 'a list" where
  "del_at idx xs = (if idx < length xs then Inr (take idx xs @ drop (Suc idx) xs) else Inl IndexError)"

definition drop_unneeded_columns ::
  "'v online_features_response \<Rightarrow> string list \<Rightarrow> error + 'v online_features_response" where
  "drop_unneeded_columns online_features_response requested_names =
     (let unneeded_feature_indices =
            map fst (filter (\<lambda>iv. snd iv \<notin> set requested_names)
                       (List.enumerate 0 (feature_names online_features_response)))
      in fold_result
           (\<lambda>idx response.
              case del_at idx (feature_names response) of
                Inl e \<Rightarrow> Inl e
              | Inr names \<Rightarrow>
                  (case del_at idx (results response) of
                     Inl e \<Rightarrow> Inl e
                   | Inr vectors \<Rightarrow> Inr \<lparr>feature_names = names, results = vectors\<rparr>))
           (rev unneeded_feature_indices) online_features_response)"

subsection \<open>\<open>_get_online_features\<close>\<close>

text \<open>
  What the method takes from its object and from the registry: the provider's
  \<open>online_read\<close>, the protobuf conversions and constants, the views returned by
  \<open>_get_feature_views_to_use\<close>, the maps returned by \<open>_get_entity_maps\<close>, and the constants
  of the entity-less case. The embedded Go server is off (\<open>go_feature_retrieval\<close> is false),
  and the entity values are \<open>Value\<close> messages already.
\<close>

record ('v, 'dt, 'k) feature_store =
  provider :: "feature_view \<Rightarrow> 'v entity_key list \<Rightarrow> string list \<Rightarrow> error + ('dt, 'v) read_row list"
  from_datetime :: "'dt \<Rightarrow> timestamp"
  null_proto :: 'v
  native_value :: "'v \<Rightarrow> 'k"
  projection_get_feature :: "projection \<Rightarrow> string \<Rightarrow> error option"
  registry_get_feature_service :: "string \<Rightarrow> error + feature_service"
  feature_views_to_use :: "feature_view list"
  request_feature_views_to_use :: "request_feature_view list"
  on_demand_feature_views_to_use :: "'v on_demand_feature_view list"
  entity_name_to_join_key :: "string \<rightharpoonup> string"
  join_keys :: "string list"
  dummy_entity_name :: string
  dummy_entity_id :: string
  dummy_entity_val :: 'v

text \<open>
  The loop over the grouped feature views. Each call of \<open>_read_from_online_store\<close> is one
  read of the backend; the list \<open>reads\<close> records the table, the unique entity rows and the features of
  every read made, so that the reads made before an error are visible.
\<close>

type_synonym 'v read_log = "(feature_view \<times> (string \<times> 'v) list list \<times> string list) list"

fun read_tables ::
  "('v, 'dt, 'k::linorder) feature_store \<Rightarrow> bool \<Rightarrow> (string \<times> 'v list) list \<Rightarrow>
   (feature_view \<times> string list) list \<Rightarrow> 'v read_log \<Rightarrow> 'v online_features_response \<Rightarrow>
   'v read_log \<times> (error + 'v online_features_response)" where
  "read_tables store full_feature_names jkv [] reads response = (reads, Inr response)"
| "read_tables store full_feature_names jkv (table_refs # rest) reads response =
     (let table = fst table_refs; requested_features = snd table_refs
      in case get_unique_entities (native_value store) table jkv (entity_name_to_join_key store) of
           Inl e \<Rightarrow> (reads, Inl e)
         | Inr unique \<Rightarrow>
             (let table_entity_values = fst unique; idxs = snd unique;
                  reads1 = reads @ [(table, table_entity_values, requested_features)]
              in case read_from_online_store (provider store) (from_datetime store)
                        (null_proto store) table_entity_values requested_features table of
                   Inl e \<Rightarrow> (reads1, Inl e)
                 | Inr feature_data \<Rightarrow>
                     (case populate_response_from_feature_data feature_data idxs response
                             full_feature_names requested_features table of
                        Inl e \<Rightarrow> (reads1, Inl e)
                      | Inr response' \<Rightarrow>
                          read_tables store full_feature_names jkv rest reads1 response')))"

text \<open>
  The second half of the method, from the response of the echo columns to the final trim.
  \<open>dict(**join_key_values, **request_data_features)\<close> raises \<open>TypeError\<close> for a key that both
  dictionaries have.
\<close>

definition assemble_response ::
  "('v, 'dt, 'k::linorder) feature_store \<Rightarrow> string list \<Rightarrow> bool \<Rightarrow> nat \<Rightarrow>
   (feature_view \<times> string list) list \<Rightarrow> ('v on_demand_feature_view \<times> string list) list \<Rightarrow>
   'v entity_rows_state \<Rightarrow> 'v read_log \<times> (error + 'v online_features_response)" where
  "assemble_response store feature_refs full_feature_names num_rows grouped_refs
     grouped_odfv_refs rows =
     (if \<exists>k \<in> fst ` set (er_join_key_values rows). k \<in> fst ` set (er_request_data_features rows)
      then ([], Inl TypeError)
      else
        let online_features_response =
              populate_result_rows_from_columnar \<lparr>feature_names = [], results = []\<rparr>
                (er_join_key_values rows @ er_request_data_features rows);
            feature_views = map fst grouped_refs;
            entityless_case = dummy_entity_name store \<in> set (concat (map entities feature_views));
            jkv = (if entityless_case
                   then dict_set (dummy_entity_id store)
                          (replicate num_rows (dummy_entity_val store)) (er_join_key_values rows)
                   else er_join_key_values rows)
        in case read_tables store full_feature_names jkv grouped_refs [] online_features_response of
             (reads, Inl e) \<Rightarrow> (reads, Inl e)
           | (reads, Inr fetched) \<Rightarrow>
               (case (if grouped_odfv_refs \<noteq> []
                      then augment_response_with_on_demand_transforms fetched feature_refs
                             (on_demand_feature_views_to_use store) full_feature_names
                      else Inr fetched) of
                  Inl e \<Rightarrow> (reads, Inl e)
                | Inr augmented \<Rightarrow>
                    (reads, drop_unneeded_columns augmented (er_result_row_names rows))))"

text \<open>
  The first half: the feature references, the validations, the grouping and the loop over the
  entity rows, all of it before any read of the backend.
\<close>

definition get_online_features ::
  "('v, 'dt, 'k::linorder) feature_store \<Rightarrow> features_arg \<Rightarrow> (string \<times> 'v list) list \<Rightarrow> bool \<Rightarrow>
   'v read_log \<times> (error + 'v online_features_response)" where
  "get_online_features store fs entity_proto_values full_feature_names =
     (case get_features (registry_get_feature_service store) fs of
        Inl e \<Rightarrow> ([], Inl e)
      | Inr feature_refs \<Rightarrow>
     (case validate_entity_values entity_proto_values of
        Inl e \<Rightarrow> ([], Inl e)
      | Inr num_rows \<Rightarrow>
     (case validate_feature_refs feature_refs full_feature_names of
        Inl e \<Rightarrow> ([], Inl e)
      | Inr _ \<Rightarrow>
     (case group_feature_refs (projection_get_feature store) feature_refs
             (feature_views_to_use store) (request_feature_views_to_use store)
             (on_demand_feature_views_to_use store) of
        Inl e \<Rightarrow> ([], Inl e)
      | Inr (grouped_refs, grouped_odfv_refs, grouped_request_fv_refs, _) \<Rightarrow>
          (let needed = get_needed_request_data grouped_odfv_refs grouped_request_fv_refs
           in case fold_result
                     (split_entity_row (fst needed) (snd needed) (join_keys store)
                        (entity_name_to_join_key store))
                     entity_proto_values
                     \<lparr>er_result_row_names =
                        requested_result_row_names feature_refs full_feature_names,
                      er_join_key_values = [], er_request_data_features = []\<rparr> of
                Inl e \<Rightarrow> ([], Inl e)
              | Inr rows \<Rightarrow>
                  (case ensure_request_data_values_exist (fst needed) (snd needed)
                          (er_request_data_features rows) of
                     Inl e \<Rightarrow> ([], Inl e)
                   | Inr _ \<Rightarrow>
                       assemble_response store feature_refs full_feature_names num_rows
                         grouped_refs grouped_odfv_refs rows))))))"

subsection \<open>The end-to-end scenario\<close>

text \<open>
  The scenario of the specification's testable properties, used for the concrete
  evaluations: a feature view \<open>driver_stats\<close> on the entity \<open>driver\<close> (join key
  \<open>driver_id\<close>) with the feature \<open>conv_rate\<close>, and an on-demand view \<open>conv_rate_pct\<close> that
  multiplies \<open>conv_rate\<close> by 100. Values are optional integers, \<open>None\<close> being the null value.
  The backend holds \<open>conv_rate = 5\<close>, written at time 17, for the driver 1 and nothing for any
  other driver.
\<close>

definition driver_stats :: feature_view where
  "driver_stats =
     \<lparr>name = ''driver_stats'',
      projection = \<lparr>proj_name = ''driver_stats'', name_to_use = ''driver_stats'',
                     proj_features = [''conv_rate''], join_key_map = []\<rparr>,
      entities = [''driver'']\<rparr>"

definition conv_rate_pct :: "int option on_demand_feature_view" where
  "conv_rate_pct =
     \<lparr>name = ''conv_rate_pct'',
      projection = \<lparr>proj_name = ''conv_rate_pct'', name_to_use = ''conv_rate_pct'',
                     proj_features = [''conv_rate_pct''], join_key_map = []\<rparr>,
      source_feature_view_projections = [projection driver_stats],
      request_data_schema = [],
      get_transformed_features_df =
        (\<lambda>df full_feature_names.
           case map_of df (if full_feature_names then ''driver_stats__conv_rate''
                           else ''conv_rate'') of
             None \<Rightarrow> []
           | Some column \<Rightarrow>
               [(if full_feature_names then ''conv_rate_pct__conv_rate_pct''
                 else ''conv_rate_pct'',
                 map (map_option (\<lambda>x. x * 100)) column)])\<rparr>"

definition scenario_store :: "(int option, int, int) feature_store" where
  "scenario_store =
     \<lparr>provider =
        (\<lambda>table keys feats.
           Inr (map (\<lambda>key. if snd key = [Some 1]
                            then (Some 17, Some [''conv_rate'' \<mapsto> Some 5])
                            else (None, None)) keys)),
      from_datetime = (\<lambda>t. \<lparr>seconds = t, nanos = 0\<rparr>),
      null_proto = None,
      native_value = (\<lambda>v. case v of None \<Rightarrow> 0 | Some x \<Rightarrow> x),
      projection_get_feature = (\<lambda>p f. None),
      registry_get_feature_service = (\<lambda>n. Inl (KeyError n)),
      feature_views_to_use = [driver_stats],
      request_feature_views_to_use = [],
      on_demand_feature_views_to_use = [conv_rate_pct],
      entity_name_to_join_key = [''driver'' \<mapsto> ''driver_id''],
      join_keys = [''driver_id''],
      dummy_entity_name = ''__dummy'',
      dummy_entity_id = ''__dummy_id'',
      dummy_entity_val = None\<rparr>"

section \<open>Properties\<close>

subsection \<open>Scatter by index lists\<close>

lemma assign_all_ok:
  "\<forall>j\<in>set ds. j < length out \<Longrightarrow>
   \<exists>out'. assign_all e ds out = Inr out' \<and> length out' = length out \<and>
     (\<forall>j\<in>set ds. out' ! j = Some e) \<and>
     (\<forall>j. j \<notin> set ds \<longrightarrow> out' ! j = out ! j)"
proof (induction ds arbitrary: out)
  case Nil
  then show ?case by simp
next
  case (Cons d ds)
  from Cons.prems have d: "d < length out" and ds: "\<forall>j\<in>set ds. j < length (out[d := Some e])"
    by simp_all
  from Cons.IH[OF ds] obtain out' where
    o: "assign_all e ds (out[d := Some e]) = Inr out'" "length out' = length out"
       "\<forall>j\<in>set ds. out' ! j = Some e"
       "\<forall>j. j \<notin> set ds \<longrightarrow> out' ! j = (out[d := Some e]) ! j"
    by auto
  have "out' ! d = Some e"
  proof (cases "d \<in> set ds")
    case True then show ?thesis using o(3) by simp
  next
    case False then show ?thesis using o(4) d by simp
  qed
  moreover have "\<forall>j. j \<notin> set (d # ds) \<longrightarrow> out' ! j = out ! j"
    using o(4) by auto
  ultimately show ?case using o d by auto
qed

lemma scatter_ok:
  "length lst = length idxs \<Longrightarrow> distinct (concat idxs) \<Longrightarrow>
   \<forall>j\<in>set (concat idxs). j < length out \<Longrightarrow>
   \<exists>out'. scatter lst idxs out = Inr out' \<and> length out' = length out \<and>
     (\<forall>i<length idxs. \<forall>j\<in>set (idxs ! i). out' ! j = Some (lst ! i)) \<and>
     (\<forall>j. j \<notin> set (concat idxs) \<longrightarrow> out' ! j = out ! j)"
proof (induction lst idxs arbitrary: out rule: list_induct2)
  case Nil
  then show ?case by simp
next
  case (Cons e lst ds idxs)
  have ds: "\<forall>j\<in>set ds. j < length out" using Cons.prems by simp
  from assign_all_ok[OF ds, of e] obtain o1 where
    o1: "assign_all e ds out = Inr o1" "length o1 = length out"
        "\<forall>j\<in>set ds. o1 ! j = Some e" "\<forall>j. j \<notin> set ds \<longrightarrow> o1 ! j = out ! j"
    by blast
  have d2: "distinct (concat idxs)" and disj: "set ds \<inter> set (concat idxs) = {}"
    using Cons.prems by auto
  have b2: "\<forall>j\<in>set (concat idxs). j < length o1" using Cons.prems o1(2) by simp
  from Cons.IH[OF d2 b2] obtain o2 where
    o2: "scatter lst idxs o1 = Inr o2" "length o2 = length o1"
        "\<forall>i<length idxs. \<forall>j\<in>set (idxs ! i). o2 ! j = Some (lst ! i)"
        "\<forall>j. j \<notin> set (concat idxs) \<longrightarrow> o2 ! j = o1 ! j"
    by blast
  have a: "scatter (e # lst) (ds # idxs) out = Inr o2" using o1(1) o2(1) by simp
  have b: "\<forall>i<length (ds # idxs). \<forall>j\<in>set ((ds # idxs) ! i). o2 ! j = Some ((e # lst) ! i)"
  proof (intro allI impI ballI)
    fix i j assume i: "i < length (ds # idxs)" and j: "j \<in> set ((ds # idxs) ! i)"
    show "o2 ! j = Some ((e # lst) ! i)"
    proof (cases i)
      case 0
      then have "j \<in> set ds" using j by simp
      then have "j \<notin> set (concat idxs)" using disj by auto
      then show ?thesis using o2(4) o1(3) \<open>j \<in> set ds\<close> 0 by simp
    next
      case (Suc i')
      then show ?thesis using i j o2(3) by simp
    qed
  qed
  have c: "\<forall>j. j \<notin> set (concat (ds # idxs)) \<longrightarrow> o2 ! j = out ! j"
    using o2(4) o1(4) by simp
  show ?case using a b c o2(2) o1(2) by (intro exI[of _ o2] conjI) simp_all
qed

lemma partitions_mset: "partitions idxs N \<longleftrightarrow> mset (concat idxs) = mset [0..<N]"
  unfolding partitions_def
  by (metis mset_sort sorted_upt sorted_sort properties_for_sort sort_key_id_if_sorted)

lemma partitions_facts:
  assumes "partitions idxs N"
  shows "distinct (concat idxs)" "set (concat idxs) = {0..<N}"
    "sum_list (map length idxs) = N"
proof -
  have m: "mset (concat idxs) = mset [0..<N]" using assms by (simp add: partitions_mset)
  show "distinct (concat idxs)" using m by (metis distinct_upt mset_eq_imp_distinct_iff)
  show "set (concat idxs) = {0..<N}" using m by (metis mset_eq_setD set_upt)
  have "length (concat idxs) = N" using m by (metis length_upt mset_eq_length minus_nat.diff_0)
  then show "sum_list (map length idxs) = N" by (simp add: length_concat)
qed

lemma apply_list_mapping_ok:
  assumes "partitions idxs N" "length lst = length idxs"
  shows "\<exists>out. apply_list_mapping lst idxs = Inr out \<and> length out = N \<and>
     (\<forall>i<length idxs. \<forall>j\<in>set (idxs ! i). out ! j = Some (lst ! i)) \<and>
     (\<forall>j<N. out ! j \<noteq> None)"
proof -
  note pf = partitions_facts[OF assms(1)]
  let ?o = "replicate (sum_list (map length idxs)) (None :: 'a option)"
  have b: "\<forall>j\<in>set (concat idxs). j < length ?o" using pf by simp
  from scatter_ok[OF assms(2) pf(1) b] obtain out where
    o: "scatter lst idxs ?o = Inr out" "length out = length ?o"
       "\<forall>i<length idxs. \<forall>j\<in>set (idxs ! i). out ! j = Some (lst ! i)"
    by blast
  have "\<forall>j<N. out ! j \<noteq> None"
  proof (intro allI impI)
    fix j assume "j < N"
    then have "j \<in> set (concat idxs)" using pf(2) by simp
    then obtain ds where "ds \<in> set idxs" "j \<in> set ds" by auto
    then obtain i where "i < length idxs" "idxs ! i = ds" by (auto simp: in_set_conv_nth)
    then show "out ! j \<noteq> None" using o(3) \<open>j \<in> set ds\<close> by auto
  qed
  then show ?thesis using o pf(3) by (auto simp: apply_list_mapping_def)
qed

lemma those_eq_Some: "those xs = Some ys \<longleftrightarrow> xs = map Some ys"
proof (induction xs arbitrary: ys)
  case Nil
  then show ?case by auto
next
  case (Cons x xs)
  show ?case
  proof (cases x)
    case None
    then show ?thesis by auto
  next
    case (Some a)
    then show ?thesis using Cons.IH by (cases ys) (auto split: option.splits)
  qed
qed

lemma those_total:
  assumes "\<forall>j<length out. out ! j \<noteq> None"
  shows "\<exists>vs. those out = Some vs \<and> length vs = length out \<and>
     (\<forall>j<length out. out ! j = Some (vs ! j))"
proof -
  have e: "\<forall>j<length out. out ! j = Some (the (out ! j))" using assms by simp
  then have "out = map Some (map the out)"
    by (intro nth_equalityI) simp_all
  then have "those out = Some (map the out)" by (simp only: those_eq_Some)
  then show ?thesis using e by (intro exI[of _ "map the out"]) simp
qed

lemma min_list_const:
  "xs \<noteq> [] \<Longrightarrow> \<forall>x\<in>set xs. x = (n::nat) \<Longrightarrow> min_list xs = n"
proof (induction xs)
  case Nil
  then show ?case by simp
next
  case (Cons a xs)
  then show ?case by (cases xs) auto
qed

lemma zip_star_rect:
  assumes "xss \<noteq> []" "\<forall>xs\<in>set xss. length xs = n"
  shows "length (zip_star xss) = n" "\<forall>k<n. zip_star xss ! k = map (\<lambda>xs. xs ! k) xss"
proof -
  have "min_list (map length xss) = n"
    using assms by (intro min_list_const) auto
  then show "length (zip_star xss) = n" "\<forall>k<n. zip_star xss ! k = map (\<lambda>xs. xs ! k) xss"
    using assms(1) by (simp_all add: zip_star_def)
qed

lemma FeatureVector_ok:
  assumes "those vs = Some vs'" "those ss = Some ss'" "those ts = Some ts'"
  shows "FeatureVector vs ss ts = Inr \<lparr>fv_values = vs', statuses = ss', event_timestamps = ts'\<rparr>"
  using assms by (simp add: FeatureVector_def)

lemma scatter_feature_ok:
  assumes p: "partitions idxs N"
    and l: "length tv = length idxs" "length sv = length idxs" "length vv = length idxs"
  shows "\<exists>fv. scatter_feature (tv, sv, vv) idxs = Inr fv \<and> scattered_from idxs N (tv, sv, vv) fv"
proof -
  note pf = partitions_facts[OF p]
  have inN: "j < N" if "i < length idxs" "j \<in> set (idxs ! i)" for i j
  proof -
    from that have "j \<in> set (concat idxs)" by (auto intro: nth_mem)
    then have "j \<in> {0..<N}" by (simp only: pf(2))
    then show "j < N" by simp
  qed
  from apply_list_mapping_ok[OF p l(3)] obtain ov where
    ov: "apply_list_mapping vv idxs = Inr ov" "length ov = N"
        "\<forall>i<length idxs. \<forall>j\<in>set (idxs ! i). ov ! j = Some (vv ! i)" "\<forall>j<N. ov ! j \<noteq> None"
    by blast
  from apply_list_mapping_ok[OF p l(2)] obtain os where
    os: "apply_list_mapping sv idxs = Inr os" "length os = N"
        "\<forall>i<length idxs. \<forall>j\<in>set (idxs ! i). os ! j = Some (sv ! i)" "\<forall>j<N. os ! j \<noteq> None"
    by blast
  from apply_list_mapping_ok[OF p l(1)] obtain ot where
    ot: "apply_list_mapping tv idxs = Inr ot" "length ot = N"
        "\<forall>i<length idxs. \<forall>j\<in>set (idxs ! i). ot ! j = Some (tv ! i)" "\<forall>j<N. ot ! j \<noteq> None"
    by blast
  from those_total[of ov] ov(2,4) obtain vs' where
    vs: "those ov = Some vs'" "length vs' = N" "\<forall>j<N. ov ! j = Some (vs' ! j)" by auto
  from those_total[of os] os(2,4) obtain ss' where
    ss: "those os = Some ss'" "length ss' = N" "\<forall>j<N. os ! j = Some (ss' ! j)" by auto
  from those_total[of ot] ot(2,4) obtain ts' where
    ts: "those ot = Some ts'" "length ts' = N" "\<forall>j<N. ot ! j = Some (ts' ! j)" by auto
  let ?fv = "\<lparr>fv_values = vs', statuses = ss', event_timestamps = ts'\<rparr>"
  have fv: "FeatureVector ov os ot = Inr ?fv"
    by (rule FeatureVector_ok[OF vs(1) ss(1) ts(1)])
  have r: "scatter_feature (tv, sv, vv) idxs = Inr ?fv"
    by (simp add: scatter_feature_def ov(1) os(1) ot(1) fv)
  have h: "vs' ! j = vv ! i \<and> ss' ! j = sv ! i \<and> ts' ! j = tv ! i"
    if ij: "i < length idxs" "j \<in> set (idxs ! i)" for i j
  proof -
    have jN: "j < N" using ij by (rule inN)
    have "Some (vs' ! j) = Some (vv ! i)" using ov(3) vs(3) ij jN by metis
    moreover have "Some (ss' ! j) = Some (sv ! i)" using os(3) ss(3) ij jN by metis
    moreover have "Some (ts' ! j) = Some (tv ! i)" using ot(3) ts(3) ij jN by metis
    ultimately show ?thesis by simp
  qed
  have "scattered_from idxs N (tv, sv, vv) ?fv"
    unfolding scattered_from_def using h vs(2) ss(2) ts(2) by simp
  with r show ?thesis by blast
qed

lemma scattered_vectors_ok:
  assumes p: "partitions idxs N"
    and len: "\<forall>tr\<in>set trs. length (fst tr) = length idxs \<and> length (fst (snd tr)) = length idxs
                \<and> length (snd (snd tr)) = length idxs"
  shows "\<exists>fvs. scattered_vectors trs idxs = Inr fvs \<and> list_all2 (scattered_from idxs N) trs fvs"
  using len
proof (induction trs)
  case Nil
  then show ?case by simp
next
  case (Cons tr trs)
  obtain tv sv vv where tr: "tr = (tv, sv, vv)" by (cases tr) auto
  have l: "length tv = length idxs" "length sv = length idxs" "length vv = length idxs"
    using Cons.prems tr by auto
  from scatter_feature_ok[OF p l] obtain fv where
    fv: "scatter_feature tr idxs = Inr fv" "scattered_from idxs N tr fv"
    using tr by blast
  have rest: "\<forall>tr\<in>set trs. length (fst tr) = length idxs \<and> length (fst (snd tr)) = length idxs
                \<and> length (snd (snd tr)) = length idxs"
    using Cons.prems by simp
  from Cons.IH[OF rest] obtain fvs where
    fvs: "scattered_vectors trs idxs = Inr fvs" "list_all2 (scattered_from idxs N) trs fvs"
    by blast
  have "scattered_vectors (tr # trs) idxs = Inr (fv # fvs)" using fv(1) fvs(1) by simp
  moreover have "list_all2 (scattered_from idxs N) (tr # trs) (fv # fvs)"
    using fv(2) fvs(2) by simp
  ultimately show ?case by blast
qed

subsection \<open>Deduplicator\<close>

lemma groupby_concat: "concat (map snd (groupby f xs)) = xs"
  by (induction f xs rule: groupby.induct) simp_all

lemma groupby_Nil_iff: "groupby f xs = [] \<longleftrightarrow> xs = []"
  by (cases xs) simp_all

lemma groupby_runs_nonempty: "kg \<in> set (groupby f xs) \<Longrightarrow> snd kg \<noteq> []"
  by (induction f xs rule: groupby.induct) auto

lemma dict_set_nonempty: "dict_set k v d \<noteq> []"
  by (cases d) (auto split: if_splits)

lemma dict_set_values: "snd ` set (dict_set k v d) \<subseteq> insert v (snd ` set d)"
  by (induction d) (force split: if_splits)+

lemma dict_fold_values:
  "snd ` set (foldl (\<lambda>d item. dict_set (fst item) (snd item) d) acc items)
     \<subseteq> snd ` set acc \<union> snd ` set items"
proof (induction items arbitrary: acc)
  case Nil
  then show ?case by simp
next
  case (Cons item items)
  have "snd ` set (foldl (\<lambda>d item. dict_set (fst item) (snd item) d)
                     (dict_set (fst item) (snd item) acc) items)
          \<subseteq> snd ` set (dict_set (fst item) (snd item) acc) \<union> snd ` set items"
    by (rule Cons.IH)
  also have "\<dots> \<subseteq> insert (snd item) (snd ` set acc) \<union> snd ` set items"
    using dict_set_values[of "fst item" "snd item" acc] by blast
  finally show ?case by auto
qed

lemma dict_fold_nonempty:
  "acc \<noteq> [] \<Longrightarrow> foldl (\<lambda>d item. dict_set (fst item) (snd item) d) acc items \<noteq> []"
  by (induction items arbitrary: acc) (simp_all add: dict_set_nonempty)

lemma dict_of_items_values: "snd ` set (dict_of_items items) \<subseteq> snd ` set items"
  using dict_fold_values[of "[]" items] by (simp add: dict_of_items_def)

lemma dict_of_items_Nil_iff: "dict_of_items items = [] \<longleftrightarrow> items = []"
proof (cases items)
  case Nil
  then show ?thesis by (simp add: dict_of_items_def)
next
  case (Cons item rest)
  then show ?thesis
    by (simp add: dict_of_items_def dict_fold_nonempty dict_set_nonempty)
qed

lemma get_table_entity_values_columns:
  assumes "get_table_entity_values table e2jk jkv = Inr tev"
  shows "snd ` set tev \<subseteq> snd ` set jkv"
proof -
  from assms obtain tjk where t: "lookup_all e2jk (entities table) = Inr tjk"
    by (auto simp: get_table_entity_values_def split: sum.splits)
  let ?a2jk = "dict_of_items (map (\<lambda>item. (snd item, fst item)) (join_key_map (projection table)))"
  let ?items = "map (\<lambda>item. (dict_get ?a2jk (fst item) (fst item), snd item))
                     (filter (\<lambda>item. dict_get ?a2jk (fst item) (fst item) \<in> set tjk) jkv)"
  have "tev = dict_of_items ?items"
    using assms t by (simp add: get_table_entity_values_def Let_def)
  then have "snd ` set tev \<subseteq> snd ` set ?items" by (simp only: dict_of_items_values)
  also have "\<dots> \<subseteq> snd ` set jkv" by force
  finally show ?thesis .
qed

lemma get_unique_entities_total:
  assumes tev: "get_table_entity_values table entity_name_to_join_key_map join_key_values
                  = Inr table_entity_values"
    and ne: "table_entity_values \<noteq> []"
    and cols: "\<forall>col\<in>snd ` set join_key_values. length col = N"
    and N: "0 < N"
  shows "\<exists>unique_entities indexes.
     get_unique_entities native table join_key_values entity_name_to_join_key_map
       = Inr (unique_entities, indexes) \<and>
     partitions indexes N \<and>
     length unique_entities = length indexes \<and>
     sum_list (map length indexes) = N \<and>
     (\<forall>g\<in>set indexes. g \<noteq> [])"
proof -
  let ?cols = "map snd table_entity_values"
  let ?rows = "zip_star ?cols"
  let ?sorted = "sort_key (\<lambda>row. map native (snd row)) (List.enumerate 0 ?rows)"
  let ?G = "groupby snd ?sorted"
  let ?keys = "map fst table_entity_values"
  let ?groups = "map (\<lambda>kg. (zip ?keys (fst kg), map fst (snd kg))) ?G"
  have cne: "?cols \<noteq> []" using ne by simp
  have clen: "\<forall>xs\<in>set ?cols. length xs = N"
  proof
    fix xs assume "xs \<in> set ?cols"
    then have "xs \<in> snd ` set table_entity_values" by simp
    then have "xs \<in> snd ` set join_key_values"
      using get_table_entity_values_columns[OF tev] by (rule subsetD[rotated])
    then show "length xs = N" using cols by (rule bspec[rotated])
  qed
  have lrows: "length ?rows = N" by (rule zip_star_rect(1)[OF cne clen])
  have lsorted: "length ?sorted = N" using lrows by simp
  then have "length ?sorted \<noteq> 0" using N by (simp only: neq0_conv)
  then have "?sorted \<noteq> []" by (simp only: length_0_conv not_False_eq_True)
  then have Gne: "?G \<noteq> []" by (simp only: groupby_Nil_iff not_False_eq_True)
  then have gne: "?groups \<noteq> []" by simp
  have r: "get_unique_entities native table join_key_values entity_name_to_join_key_map
             = Inr (map fst ?groups, map snd ?groups)"
    unfolding get_unique_entities_def using tev gne by (simp add: Let_def)
  have idx: "map snd ?groups = map (\<lambda>kg. map fst (snd kg)) ?G" by simp
  have "concat (map snd ?groups) = map fst (concat (map snd ?G))"
    unfolding idx by (simp add: map_concat comp_def)
  then have cc: "concat (map snd ?groups) = map fst ?sorted" by (simp only: groupby_concat)
  have "mset (map fst ?sorted) = mset (map fst (List.enumerate 0 ?rows))"
    by (metis mset_map mset_sort)
  also have "\<dots> = mset [0..<N]" using lrows by (simp add: map_fst_enumerate del: mset_map)
  finally have m: "mset (concat (map snd ?groups)) = mset [0..<N]" using cc by simp
  then have part: "partitions (map snd ?groups) N" by (simp only: partitions_mset)
  have "length (concat (map snd ?groups)) = N" using cc lsorted by simp
  then have sum: "sum_list (map length (map snd ?groups)) = N" by (simp add: length_concat)
  have nonempty: "\<forall>g\<in>set (map snd ?groups). g \<noteq> []"
    using groupby_runs_nonempty[of _ snd ?sorted] by auto
  show ?thesis
    by (intro exI[of _ "map fst ?groups"] exI[of _ "map snd ?groups"] conjI)
       (use r part sum nonempty in simp_all)
qed




subsection \<open>Response assembler\<close>

lemma populate_response_scatters:
  assumes p: "partitions indexes N"
    and ne: "feature_data \<noteq> []"
    and len: "length feature_data = length indexes"
    and rect: "\<forall>row\<in>set feature_data.
                 length (fst row) = n \<and> length (fst (snd row)) = n \<and> length (snd (snd row)) = n"
  shows "\<exists>fvs.
     populate_response_from_feature_data feature_data indexes online_features_response
       full_feature_names requested_features table =
       Inr \<lparr>feature_names = feature_names online_features_response @
               map (\<lambda>feature_name.
                      if full_feature_names
                      then name_to_use (projection table) @ ''__'' @ feature_name
                      else feature_name) requested_features,
            results = results online_features_response @ fvs\<rparr> \<and>
     length fvs = n \<and>
     (\<forall>k<n. \<forall>i<length indexes. \<forall>j\<in>set (indexes ! i).
        fv_values (fvs ! k) ! j = snd (snd (feature_data ! i)) ! k \<and>
        statuses (fvs ! k) ! j = fst (snd (feature_data ! i)) ! k \<and>
        event_timestamps (fvs ! k) ! j = fst (feature_data ! i) ! k) \<and>
     (\<forall>k<n. \<forall>i<length indexes. \<forall>j\<in>set (indexes ! i). \<forall>j'\<in>set (indexes ! i).
        fv_values (fvs ! k) ! j = fv_values (fvs ! k) ! j' \<and>
        statuses (fvs ! k) ! j = statuses (fvs ! k) ! j' \<and>
        event_timestamps (fvs ! k) ! j = event_timestamps (fvs ! k) ! j')"
proof -
  let ?T = "zip_star (map fst feature_data)"
  let ?S = "zip_star (map (\<lambda>row. fst (snd row)) feature_data)"
  let ?V = "zip_star (map (\<lambda>row. snd (snd row)) feature_data)"
  let ?trs = "zip ?T (zip ?S ?V)"
  have neT: "map fst feature_data \<noteq> []" and neS: "map (\<lambda>row. fst (snd row)) feature_data \<noteq> []"
    and neV: "map (\<lambda>row. snd (snd row)) feature_data \<noteq> []"
    using ne by simp_all
  have rT: "\<forall>xs\<in>set (map fst feature_data). length xs = n"
    and rS: "\<forall>xs\<in>set (map (\<lambda>row. fst (snd row)) feature_data). length xs = n"
    and rV: "\<forall>xs\<in>set (map (\<lambda>row. snd (snd row)) feature_data). length xs = n"
    using rect by simp_all
  note zT = zip_star_rect[OF neT rT] and zS = zip_star_rect[OF neS rS]
    and zV = zip_star_rect[OF neV rV]
  have ltrs: "length ?trs = n" using zT(1) zS(1) zV(1) by simp
  have trk: "?trs ! k = (map (\<lambda>row. fst row ! k) feature_data,
                         map (\<lambda>row. fst (snd row) ! k) feature_data,
                         map (\<lambda>row. snd (snd row) ! k) feature_data)" if "k < n" for k
    using that zT zS zV by (simp add: comp_def)
  have lens: "\<forall>tr\<in>set ?trs. length (fst tr) = length indexes \<and>
                length (fst (snd tr)) = length indexes \<and> length (snd (snd tr)) = length indexes"
  proof
    fix tr assume "tr \<in> set ?trs"
    then obtain k where k: "k < n" "tr = ?trs ! k"
      using ltrs by (metis in_set_conv_nth)
    show "length (fst tr) = length indexes \<and>
                length (fst (snd tr)) = length indexes \<and> length (snd (snd tr)) = length indexes"
      using k(2) trk[OF k(1)] len by simp
  qed
  from scattered_vectors_ok[OF p lens] obtain fvs where
    fvs: "scattered_vectors ?trs indexes = Inr fvs"
         "list_all2 (scattered_from indexes N) ?trs fvs"
    by blast
  have lf: "length fvs = n" using fvs(2) ltrs by (simp add: list_all2_lengthD[symmetric])
  have sk: "scattered_from indexes N (?trs ! k) (fvs ! k)" if "k < n" for k
    using fvs(2) that ltrs by (simp add: list_all2_nthD)
  have r: "populate_response_from_feature_data feature_data indexes online_features_response
       full_feature_names requested_features table =
       Inr \<lparr>feature_names = feature_names online_features_response @
               map (\<lambda>feature_name.
                      if full_feature_names
                      then name_to_use (projection table) @ ''__'' @ feature_name
                      else feature_name) requested_features,
            results = results online_features_response @ fvs\<rparr>"
    using ne fvs(1) by (simp add: populate_response_from_feature_data_def)
  have main: "fv_values (fvs ! k) ! j = snd (snd (feature_data ! i)) ! k \<and>
        statuses (fvs ! k) ! j = fst (snd (feature_data ! i)) ! k \<and>
        event_timestamps (fvs ! k) ! j = fst (feature_data ! i) ! k"
    if "k < n" "i < length indexes" "j \<in> set (indexes ! i)" for k i j
  proof -
    have "fv_values (fvs ! k) ! j = snd (snd (?trs ! k)) ! i \<and>
          statuses (fvs ! k) ! j = fst (snd (?trs ! k)) ! i \<and>
          event_timestamps (fvs ! k) ! j = fst (?trs ! k) ! i"
      using sk[OF that(1)] that(2,3) unfolding scattered_from_def by blast
    then show ?thesis using trk[OF that(1)] that(2) len by simp
  qed
  have same: "fv_values (fvs ! k) ! j = fv_values (fvs ! k) ! j' \<and>
        statuses (fvs ! k) ! j = statuses (fvs ! k) ! j' \<and>
        event_timestamps (fvs ! k) ! j = event_timestamps (fvs ! k) ! j'"
    if "k < n" "i < length indexes" "j \<in> set (indexes ! i)" "j' \<in> set (indexes ! i)" for k i j j'
    using main[OF that(1,2,3)] main[OF that(1,2,4)] by simp
  show ?thesis
    by (rule exI[of _ fvs]) (use r lf main same in blast)
qed

subsection \<open>Backend read coordinator\<close>

text \<open>
  C4. For every row returned by the backend read: the result keeps one entry per returned
  row; the row's write time (the default timestamp when the backend reports none) is
  replicated once per requested feature; a whole-key miss gives \<open>NOT_FOUND\<close> and the null
  value for every requested feature; a hit gives, at each position of the requested feature
  list, \<open>NOT_FOUND\<close> and the null value when the feature is absent from the returned
  dictionary and \<open>PRESENT\<close> with the returned value when it is there.
\<close>

theorem read_from_online_store_fills_rows:
  assumes "online_read table (map (\<lambda>row. (map fst row, map snd row)) entity_rows)
             requested_features = Inr read_rows"
  shows "\<exists>protos.
     read_from_online_store online_read FromDatetime null_value entity_rows
       requested_features table = Inr protos \<and>
     length protos = length read_rows \<and>
     (\<forall>i < length read_rows.
        let row_ts = fst (read_rows ! i); feature_data = snd (read_rows ! i);
            event_timestamps = fst (protos ! i);
            statuses = fst (snd (protos ! i));
            vals = snd (snd (protos ! i))
        in event_timestamps =
             replicate (length requested_features)
               (case row_ts of None \<Rightarrow> Timestamp | Some ts \<Rightarrow> FromDatetime ts) \<and>
           length statuses = length requested_features \<and>
           length vals = length requested_features \<and>
           (feature_data = None \<longrightarrow>
              statuses = replicate (length requested_features) NOT_FOUND \<and>
              vals = replicate (length requested_features) null_value) \<and>
           (\<forall>fd. feature_data = Some fd \<longrightarrow>
              (\<forall>k < length requested_features.
                 (fd (requested_features ! k) = None \<longrightarrow>
                    statuses ! k = NOT_FOUND \<and> vals ! k = null_value) \<and>
                 (\<forall>v. fd (requested_features ! k) = Some v \<longrightarrow>
                    statuses ! k = PRESENT \<and> vals ! k = v))))"
proof -
  let ?protos = "map (read_row_proto FromDatetime null_value requested_features) read_rows"
  have r: "read_from_online_store online_read FromDatetime null_value entity_rows
             requested_features table = Inr ?protos"
    using assms by (simp add: read_from_online_store_def)
  have "\<forall>i < length read_rows.
        let row_ts = fst (read_rows ! i); feature_data = snd (read_rows ! i);
            event_timestamps = fst (?protos ! i);
            statuses = fst (snd (?protos ! i));
            vals = snd (snd (?protos ! i))
        in event_timestamps =
             replicate (length requested_features)
               (case row_ts of None \<Rightarrow> Timestamp | Some ts \<Rightarrow> FromDatetime ts) \<and>
           length statuses = length requested_features \<and>
           length vals = length requested_features \<and>
           (feature_data = None \<longrightarrow>
              statuses = replicate (length requested_features) NOT_FOUND \<and>
              vals = replicate (length requested_features) null_value) \<and>
           (\<forall>fd. feature_data = Some fd \<longrightarrow>
              (\<forall>k < length requested_features.
                 (fd (requested_features ! k) = None \<longrightarrow>
                    statuses ! k = NOT_FOUND \<and> vals ! k = null_value) \<and>
                 (\<forall>v. fd (requested_features ! k) = Some v \<longrightarrow>
                    statuses ! k = PRESENT \<and> vals ! k = v)))"
    by (auto simp: read_row_proto_def Let_def split: option.splits)
  with r show ?thesis by (intro exI[of _ ?protos]) simp
qed

text \<open>
  A backend holding \<open>conv_rate\<close> but not \<open>acc_rate\<close> for the first key and nothing for the
  second: the first row is a partial hit, the second a whole-key miss.
\<close>

theorem read_from_online_store_fills_rows_witness:
  "read_from_online_store
     (\<lambda>table keys feats. Inr [(Some (5::int), Some [''conv_rate'' \<mapsto> (7::int)]), (None, None)])
     (\<lambda>t. \<lparr>seconds = t, nanos = 0\<rparr>) 0
     [[(''driver_id'', 1)], [(''driver_id'', 2)]] [''conv_rate'', ''acc_rate''] ''driver_stats''
   = Inr [([\<lparr>seconds = 5, nanos = 0\<rparr>, \<lparr>seconds = 5, nanos = 0\<rparr>], [PRESENT, NOT_FOUND], [7, 0]),
          ([Timestamp, Timestamp], [NOT_FOUND, NOT_FOUND], [0, 0])]"
  using read_from_online_store_fills_rows
    [where online_read = "\<lambda>table keys feats.
             Inr [(Some (5::int), Some [''conv_rate'' \<mapsto> (7::int)]), (None, None)]"
       and table = "''driver_stats''"
       and entity_rows = "[[(''driver_id'', 1)], [(''driver_id'', 2)]]"
       and requested_features = "[''conv_rate'', ''acc_rate'']"
       and read_rows = "[(Some (5::int), Some [''conv_rate'' \<mapsto> (7::int)]), (None, None)]"
       and FromDatetime = "\<lambda>t. \<lparr>seconds = t, nanos = 0\<rparr>"
       and null_value = 0]
  by (simp add: read_from_online_store_def read_row_proto_def Let_def)

subsection \<open>Reference resolver\<close>

lemma counter_add_map_of:
  "map_of (counter_add x c) = (map_of c)(x \<mapsto> (case map_of c x of None \<Rightarrow> 1 | Some n \<Rightarrow> Suc n))"
  by (induction x c rule: counter_add.induct) (auto simp: fun_eq_iff)

lemma counter_add_keys: "set (map fst (counter_add x c)) = insert x (set (map fst c))"
  by (induction x c rule: counter_add.induct) auto

lemma counter_add_distinct:
  "distinct (map fst c) \<Longrightarrow> distinct (map fst (counter_add x c))"
proof (induction x c rule: counter_add.induct)
  case (1 x)
  then show ?case by simp
next
  case (2 x y n c)
  then show ?case using counter_add_keys[of x c] by auto
qed

lemma counter_fold_distinct:
  "distinct (map fst acc) \<Longrightarrow> distinct (map fst (foldl (\<lambda>c x. counter_add x c) acc xs))"
  by (induction xs arbitrary: acc) (simp_all add: counter_add_distinct)

lemma counter_fold_map_of:
  "map_of (foldl (\<lambda>c x. counter_add x c) acc xs) y =
     (case map_of acc y of
        None \<Rightarrow> (if count_list xs y = 0 then None else Some (count_list xs y))
      | Some n \<Rightarrow> Some (n + count_list xs y))"
proof (induction xs arbitrary: acc)
  case Nil
  then show ?case by (simp split: option.splits)
next
  case (Cons x xs)
  show ?case
    by (simp add: Cons.IH counter_add_map_of split: option.splits)
qed

lemma Counter_distinct: "distinct (map fst (Counter xs))"
  by (simp add: Counter_def counter_fold_distinct)

lemma Counter_member:
  "(x, n) \<in> set (Counter xs) \<longleftrightarrow> n = count_list xs x \<and> 0 < n"
proof -
  have "(x, n) \<in> set (Counter xs) \<longleftrightarrow> map_of (Counter xs) x = Some n"
    using Counter_distinct[of xs] by simp
  also have "\<dots> \<longleftrightarrow> n = count_list xs x \<and> 0 < n"
    by (auto simp: Counter_def counter_fold_map_of)
  finally show ?thesis .
qed

lemma Counter_collided:
  "set (map fst (filter (\<lambda>item. snd item > 1) (Counter xs))) = {x. count_list xs x > 1}"
proof (intro set_eqI iffI)
  fix x assume "x \<in> set (map fst (filter (\<lambda>item. snd item > 1) (Counter xs)))"
  then obtain n where "(x, n) \<in> set (Counter xs)" "n > 1" by auto
  then show "x \<in> {x. count_list xs x > 1}" by (simp add: Counter_member)
next
  fix x assume "x \<in> {x. count_list xs x > 1}"
  then have "(x, count_list xs x) \<in> set (Counter xs)" "count_list xs x > 1"
    by (simp_all add: Counter_member)
  then show "x \<in> set (map fst (filter (\<lambda>item. snd item > 1) (Counter xs)))" by force
qed

lemma distinct_count_list: "distinct xs \<longleftrightarrow> (\<forall>x. count_list xs x \<le> 1)"
proof (induction xs)
  case Nil
  then show ?case by simp
next
  case (Cons a xs)
  show ?case
  proof
    assume d: "distinct (a # xs)"
    then have "\<forall>x. count_list xs x \<le> 1" using Cons.IH by simp
    moreover have "count_list xs a = 0" using d by (simp add: count_list_0_iff)
    ultimately show "\<forall>x. count_list (a # xs) x \<le> 1" by auto
  next
    assume c: "\<forall>x. count_list (a # xs) x \<le> 1"
    have "count_list xs a = 0" using c[rule_format, of a] by simp
    then have "a \<notin> set xs" by (simp add: count_list_0_iff)
    moreover have "\<forall>x. count_list xs x \<le> 1"
    proof
      fix x show "count_list xs x \<le> 1" using c[rule_format, of x] by (simp split: if_splits)
    qed
    ultimately show "distinct (a # xs)" using Cons.IH by simp
  qed
qed

lemma str_split_no_sep: "sep \<notin> set s \<Longrightarrow> str_split sep s = [s]"
  by (induction s) auto

lemma str_split_first: "sep \<notin> set t \<Longrightarrow> str_split sep (t @ sep # f) = t # str_split sep f"
  by (induction t) auto

lemma one_sep_decompose:
  assumes "count_list r sep = 1"
  shows "\<exists>t f. r = t @ sep # f \<and> sep \<notin> set t \<and> sep \<notin> set f"
proof -
  have "sep \<in> set r" using assms by (metis count_list_0_iff zero_neq_one)
  then obtain t f where tf: "r = t @ sep # f" "sep \<notin> set t" by (meson split_list_first)
  have "count_list t sep = 0" using tf(2) by (simp add: count_list_0_iff)
  then have "count_list f sep = 0" using assms tf(1) by simp
  then have "sep \<notin> set f" by (simp add: count_list_0_iff)
  with tf show ?thesis by blast
qed

lemma bare_name_decomposed:
  "CHR '':'' \<notin> set t \<Longrightarrow> CHR '':'' \<notin> set f \<Longrightarrow> bare_name (t @ CHR '':'' # f) = f"
  by (simp add: bare_name_def str_split_first str_split_no_sep)

lemma endswith_iff: "endswith s suffix \<longleftrightarrow> (\<exists>p. s = p @ suffix)"
proof
  assume "endswith s suffix"
  then have "s = take (length s - length suffix) s @ suffix"
    by (metis append_take_drop_id endswith_def)
  then show "\<exists>p. s = p @ suffix" ..
next
  assume "\<exists>p. s = p @ suffix"
  then show "endswith s suffix" by (auto simp: endswith_def)
qed

lemma endswith_decomposed:
  assumes "c \<notin> set t" "c \<notin> set f" "c \<notin> set n"
  shows "endswith (t @ c # f) (c # n) \<longleftrightarrow> f = n"
proof
  assume "endswith (t @ c # f) (c # n)"
  then obtain p where p: "t @ c # f = p @ c # n" unfolding endswith_iff by blast
  have "t = p \<and> f = n"
    using p append_Cons_eq_iff[OF assms(1) assms(2), of p n] by (rule iffD1[rotated])
  then show "f = n" ..
next
  assume "f = n"
  then have "t @ c # f = t @ c # n" by simp
  then show "endswith (t @ c # f) (c # n)" unfolding endswith_iff by (rule exI)
qed

lemma endswith_bare_name:
  assumes r: "count_list r CHR '':'' = 1" and n: "CHR '':'' \<notin> set n"
  shows "endswith r ('':'' @ n) \<longleftrightarrow> bare_name r = n"
proof -
  from one_sep_decompose[OF r] obtain t f where
    tf: "r = t @ CHR '':'' # f" "CHR '':'' \<notin> set t" "CHR '':'' \<notin> set f" by blast
  have "bare_name (t @ CHR '':'' # f) = f" using tf(2,3) by (rule bare_name_decomposed)
  moreover have "endswith (t @ CHR '':'' # f) (CHR '':'' # n) \<longleftrightarrow> f = n"
    using tf(2,3) n by (rule endswith_decomposed)
  ultimately have "endswith (t @ CHR '':'' # f) ('':'' @ n) \<longleftrightarrow> bare_name (t @ CHR '':'' # f) = n"
    by simp
  then show ?thesis by (simp only: tf(1))
qed

lemma bare_name_no_sep:
  assumes "count_list r CHR '':'' = 1"
  shows "CHR '':'' \<notin> set (bare_name r)"
proof -
  from one_sep_decompose[OF assms] obtain t f where
    tf: "r = t @ CHR '':'' # f" "CHR '':'' \<notin> set t" "CHR '':'' \<notin> set f" by blast
  then show ?thesis by (simp add: bare_name_decomposed)
qed

lemma second_parts_wf:
  "\<forall>r\<in>set refs. count_list r CHR '':'' = 1 \<Longrightarrow> second_parts refs = Inr (map bare_name refs)"
proof (induction refs)
  case Nil
  then show ?case by simp
next
  case (Cons r refs)
  from Cons.prems have r: "count_list r CHR '':'' = 1" by simp
  from one_sep_decompose[OF r] obtain t f where
    tf: "r = t @ CHR '':'' # f" "CHR '':'' \<notin> set t" "CHR '':'' \<notin> set f" by blast
  have sp: "str_split CHR '':'' r = [t, f]"
    using tf by (simp add: str_split_first str_split_no_sep)
  have "second_parts refs = Inr (map bare_name refs)" using Cons by simp
  then show ?case using sp by (simp add: bare_name_def)
qed

text \<open>
  C5. In qualified naming mode the validation raises \<open>FeatureNameCollisionError\<close> exactly
  when some reference occurs twice in the list, and the error lists the references that
  occur more than once. In bare naming mode, for references of the form \<open>table:feature\<close>
  (exactly one colon), it raises the error exactly when two references have the same bare
  feature name, whatever their tables, and the error lists every reference whose bare name
  is shared. Two references to one bare name in different tables therefore pass in
  qualified mode and fail in bare mode.
\<close>

theorem validate_feature_refs_collisions:
  "(distinct feature_refs \<longrightarrow> validate_feature_refs feature_refs True = Inr ()) \<and>
   (\<not> distinct feature_refs \<longrightarrow>
      (\<exists>collided. validate_feature_refs feature_refs True
                     = Inl (FeatureNameCollisionError collided True) \<and>
                   set collided = {r. count_list feature_refs r > 1})) \<and>
   ((\<forall>r\<in>set feature_refs. count_list r CHR '':'' = 1) \<longrightarrow>
      (distinct (map bare_name feature_refs) \<longrightarrow>
         validate_feature_refs feature_refs False = Inr ()) \<and>
      (\<not> distinct (map bare_name feature_refs) \<longrightarrow>
         (\<exists>collided. validate_feature_refs feature_refs False
                        = Inl (FeatureNameCollisionError collided False) \<and>
                      set collided =
                        {r \<in> set feature_refs.
                           count_list (map bare_name feature_refs) (bare_name r) > 1})))"
proof (intro conjI impI)
  let ?q = "map fst (filter (\<lambda>item. snd item > 1) (Counter feature_refs))"
  have sq: "set ?q = {r. count_list feature_refs r > 1}" by (rule Counter_collided)
  have vq: "validate_feature_refs feature_refs True =
              (if length ?q > 0 then Inl (FeatureNameCollisionError ?q True) else Inr ())"
    by (simp add: validate_feature_refs_def)
  {
    assume "distinct feature_refs"
    then have "\<forall>r. count_list feature_refs r \<le> 1" by (rule iffD1[OF distinct_count_list])
    then have "{r. count_list feature_refs r > 1} = {}" by (auto simp: not_less)
    then have "set ?q = {}" using sq by simp
    then have "?q = []" by (simp only: set_empty)
    then show "validate_feature_refs feature_refs True = Inr ()" using vq by simp
  }
  {
    assume "\<not> distinct feature_refs"
    then obtain r where "count_list feature_refs r > 1"
      unfolding distinct_count_list by (auto simp: not_le)
    then have "r \<in> set ?q" unfolding sq by simp
    then have "length ?q > 0" by (rule length_pos_if_in_set)
    then have "validate_feature_refs feature_refs True = Inl (FeatureNameCollisionError ?q True)"
      using vq by simp
    then show "\<exists>collided. validate_feature_refs feature_refs True
                     = Inl (FeatureNameCollisionError collided True) \<and>
                   set collided = {r. count_list feature_refs r > 1}"
      using sq by blast
  }
  assume wf: "\<forall>r\<in>set feature_refs. count_list r CHR '':'' = 1"
  let ?names = "map bare_name feature_refs"
  define cn where "cn = map fst (filter (\<lambda>item. snd item > 1) (Counter ?names))"
  let ?c = "concat (map (\<lambda>feature_name.
              filter (\<lambda>ref. endswith ref ('':'' @ feature_name)) feature_refs) cn)"
  have scn: "set cn = {x. count_list ?names x > 1}" unfolding cn_def by (rule Counter_collided)
  have vb: "validate_feature_refs feature_refs False =
              (if length ?c > 0 then Inl (FeatureNameCollisionError ?c False) else Inr ())"
    by (simp add: validate_feature_refs_def second_parts_wf[OF wf] Let_def cn_def)
  have mem: "r \<in> set ?c \<longleftrightarrow> r \<in> set feature_refs \<and> (\<exists>x\<in>set cn. endswith r ('':'' @ x))"
    for r by auto
  have cn_count: "x \<in> set cn \<longleftrightarrow> count_list ?names x > 1" for x
    unfolding scn by simp
  have cn_nosep: "CHR '':'' \<notin> set x" if "x \<in> set cn" for x
  proof -
    from that have "count_list ?names x > 1" by (simp only: cn_count)
    then have "x \<in> set ?names" by (metis count_list_0_iff not_less_zero)
    then obtain r where "r \<in> set feature_refs" "x = bare_name r" by auto
    then show ?thesis using wf bare_name_no_sep by blast
  qed
  have sc: "set ?c = {r \<in> set feature_refs. count_list ?names (bare_name r) > 1}"
  proof (intro set_eqI iffI)
    fix r assume "r \<in> set ?c"
    then obtain x where x: "x \<in> set cn" "r \<in> set feature_refs" "endswith r ('':'' @ x)"
      unfolding mem by blast
    have "count_list r CHR '':'' = 1" using wf x(2) by blast
    then have "bare_name r = x"
      using endswith_bare_name[of r x] x(3) cn_nosep[OF x(1)] by blast
    then have "count_list ?names (bare_name r) > 1" using x(1) by (simp only: cn_count)
    then show "r \<in> {r \<in> set feature_refs. count_list ?names (bare_name r) > 1}"
      using x(2) by simp
  next
    fix r assume "r \<in> {r \<in> set feature_refs. count_list ?names (bare_name r) > 1}"
    then have r: "r \<in> set feature_refs" "count_list ?names (bare_name r) > 1" by simp_all
    then have m: "bare_name r \<in> set cn" by (simp only: cn_count)
    have "count_list r CHR '':'' = 1" using wf r(1) by blast
    then have "endswith r ('':'' @ bare_name r)"
      using endswith_bare_name[of r "bare_name r"] cn_nosep[OF m] by blast
    then show "r \<in> set ?c" unfolding mem using m r(1) by blast
  qed
  {
    assume "distinct ?names"
    then have "\<forall>x. count_list ?names x \<le> 1" by (rule iffD1[OF distinct_count_list])
    then have "{r \<in> set feature_refs. count_list ?names (bare_name r) > 1} = {}"
      by (auto simp: not_less)
    then have "set ?c = {}" using sc by simp
    then have "?c = []" by (simp only: set_empty)
    then show "validate_feature_refs feature_refs False = Inr ()" using vb by simp
  }
  {
    assume "\<not> distinct ?names"
    then obtain x where x: "count_list ?names x > 1"
      unfolding distinct_count_list by (auto simp: not_le)
    then have "x \<in> set ?names" by (metis count_list_0_iff not_less_zero)
    then obtain r where "r \<in> set feature_refs" "x = bare_name r" by auto
    then have "r \<in> set ?c" using x unfolding sc by simp
    then have "length ?c > 0" by (rule length_pos_if_in_set)
    then have "validate_feature_refs feature_refs False = Inl (FeatureNameCollisionError ?c False)"
      using vb by simp
    then show "\<exists>collided. validate_feature_refs feature_refs False
                        = Inl (FeatureNameCollisionError collided False) \<and>
                      set collided =
                        {r \<in> set feature_refs.
                           count_list (map bare_name feature_refs) (bare_name r) > 1}"
      using sc by blast
  }
qed

theorem validate_feature_refs_collisions_witness:
  "validate_feature_refs [''fvA:amount'', ''fvB:amount''] True = Inr () \<and>
   validate_feature_refs [''fvA:amount'', ''fvB:amount''] False
     = Inl (FeatureNameCollisionError [''fvA:amount'', ''fvB:amount''] False)"
proof -
  have e: ?thesis
    by (simp add: validate_feature_refs_def Counter_def endswith_def)
  show ?thesis
    using validate_feature_refs_collisions[of "[''fvA:amount'', ''fvB:amount'']"] e by simp
qed

lemma fold_result_append:
  "fold_result f (xs @ ys) s =
     (case fold_result f xs s of Inl e \<Rightarrow> Inl e | Inr s' \<Rightarrow> fold_result f ys s')"
  by (induction xs arbitrary: s) (simp_all split: sum.splits)


text \<open>
  C8. For a reference \<open>view_name:feat_name\<close>, the name is looked up among the feature views
  first: a name found there is grouped with the feature views, whatever the other two
  indexes hold. Otherwise it is looked up among the on-demand feature views, and a name found
  there is grouped with them and leaves the request-view groups alone. Otherwise it is looked
  up among the request feature views. A name in none of the three indexes raises
  \<open>FeatureViewNotFoundException\<close> with the view name, and so does the whole grouping of a
  list whose earlier references were grouped without error.
\<close>

theorem group_feature_refs_lookup_order:
  assumes ref: "str_split CHR '':'' ref = [view_name, feat_name]"
  shows
   "(\<forall>view. view_index view_name = Some view \<and> get_feature (projection view) feat_name = None \<longrightarrow>
       group_feature_ref get_feature view_index request_view_index on_demand_view_index ref st
         = Inr (st\<lparr>views_features := defaultdict_add view_name feat_name (views_features st)\<rparr>)) \<and>
    (\<forall>odfv. view_index view_name = None \<and> on_demand_view_index view_name = Some odfv \<and>
            get_feature (projection odfv) feat_name = None \<longrightarrow>
       (\<exists>st'. group_feature_ref get_feature view_index request_view_index on_demand_view_index
                 ref st = Inr st' \<and>
              on_demand_view_features st'
                = defaultdict_add view_name feat_name (on_demand_view_features st) \<and>
              request_views_features st' = request_views_features st \<and>
              request_view_refs st' = request_view_refs st)) \<and>
    (\<forall>request_view. view_index view_name = None \<and> on_demand_view_index view_name = None \<and>
            request_view_index view_name = Some request_view \<and>
            get_feature (projection request_view) feat_name = None \<longrightarrow>
       group_feature_ref get_feature view_index request_view_index on_demand_view_index ref st
         = Inr (st\<lparr>request_views_features :=
                      defaultdict_add view_name feat_name (request_views_features st),
                    request_view_refs := set_add ref (request_view_refs st)\<rparr>)) \<and>
    (view_index view_name = None \<and> on_demand_view_index view_name = None \<and>
     request_view_index view_name = None \<longrightarrow>
       group_feature_ref get_feature view_index request_view_index on_demand_view_index ref st
         = Inl (FeatureViewNotFoundException view_name)) \<and>
    (index_views all_feature_views view_name = None \<and>
     index_views all_on_demand_feature_views view_name = None \<and>
     index_views all_request_feature_views view_name = None \<and>
     fold_result (group_feature_ref get_feature (index_views all_feature_views)
                    (index_views all_request_feature_views)
                    (index_views all_on_demand_feature_views))
       earlier \<lparr>views_features = [], request_views_features = [], request_view_refs = [],
                on_demand_view_features = []\<rparr> = Inr st \<longrightarrow>
       group_feature_refs get_feature (earlier @ ref # later) all_feature_views
         all_request_feature_views all_on_demand_feature_views
         = Inl (FeatureViewNotFoundException view_name))"
proof (intro conjI allI impI)
  fix view
  assume "view_index view_name = Some view \<and> get_feature (projection view) feat_name = None"
  then show "group_feature_ref get_feature view_index request_view_index on_demand_view_index ref st
         = Inr (st\<lparr>views_features := defaultdict_add view_name feat_name (views_features st)\<rparr>)"
    using ref by (simp add: group_feature_ref_def)
next
  fix odfv
  assume "view_index view_name = None \<and> on_demand_view_index view_name = Some odfv \<and>
            get_feature (projection odfv) feat_name = None"
  then show "\<exists>st'. group_feature_ref get_feature view_index request_view_index on_demand_view_index
                 ref st = Inr st' \<and>
              on_demand_view_features st'
                = defaultdict_add view_name feat_name (on_demand_view_features st) \<and>
              request_views_features st' = request_views_features st \<and>
              request_view_refs st' = request_view_refs st"
    using ref by (simp add: group_feature_ref_def)
next
  fix request_view
  assume "view_index view_name = None \<and> on_demand_view_index view_name = None \<and>
            request_view_index view_name = Some request_view \<and>
            get_feature (projection request_view) feat_name = None"
  then show "group_feature_ref get_feature view_index request_view_index on_demand_view_index ref st
         = Inr (st\<lparr>request_views_features :=
                      defaultdict_add view_name feat_name (request_views_features st),
                    request_view_refs := set_add ref (request_view_refs st)\<rparr>)"
    using ref by (simp add: group_feature_ref_def)
next
  assume "view_index view_name = None \<and> on_demand_view_index view_name = None \<and>
     request_view_index view_name = None"
  then show "group_feature_ref get_feature view_index request_view_index on_demand_view_index ref st
         = Inl (FeatureViewNotFoundException view_name)"
    using ref by (simp add: group_feature_ref_def)
next
  let ?step = "group_feature_ref get_feature (index_views all_feature_views)
                    (index_views all_request_feature_views)
                    (index_views all_on_demand_feature_views)"
  let ?st0 = "\<lparr>views_features = [], request_views_features = [], request_view_refs = [],
                on_demand_view_features = []\<rparr>"
  assume a: "index_views all_feature_views view_name = None \<and>
     index_views all_on_demand_feature_views view_name = None \<and>
     index_views all_request_feature_views view_name = None \<and>
     fold_result ?step earlier ?st0 = Inr st"
  then have "?step ref st = Inl (FeatureViewNotFoundException view_name)"
    using ref by (simp add: group_feature_ref_def)
  then have "fold_result ?step (earlier @ ref # later) ?st0
               = Inl (FeatureViewNotFoundException view_name)"
    using a by (simp add: fold_result_append)
  then show "group_feature_refs get_feature (earlier @ ref # later) all_feature_views
         all_request_feature_views all_on_demand_feature_views
         = Inl (FeatureViewNotFoundException view_name)"
    by (simp add: group_feature_refs_def)
qed

theorem group_feature_refs_lookup_order_witness:
  "group_feature_refs (\<lambda>p f. None) [''driver_stats:conv_rate'', ''nope:x'']
     [\<lparr>name = ''driver_stats'',
         projection = \<lparr>proj_name = ''driver_stats'', name_to_use = ''driver_stats'',
                        proj_features = [''conv_rate''], join_key_map = []\<rparr>,
         entities = [''driver'']\<rparr> :: feature_view]
     ([] :: request_feature_view list)
     [\<lparr>name = ''driver_stats'',
         projection = \<lparr>proj_name = ''driver_stats'', name_to_use = ''driver_stats'',
                        proj_features = [''conv_rate''], join_key_map = []\<rparr>,
         source_feature_view_projections = [], request_data_schema = [],
         get_transformed_features_df = (\<lambda>df full_feature_names. df)\<rparr> :: int on_demand_feature_view]
   = Inl (FeatureViewNotFoundException ''nope'')"
proof -
  have h: "str_split CHR '':'' ''nope:x'' = [''nope'', ''x'']" by simp
  have e: ?thesis
    by (simp add: group_feature_refs_def group_feature_ref_def index_views_def)
  show ?thesis
    using group_feature_refs_lookup_order[OF h] e by simp
qed

subsection \<open>Request validation\<close>




subsection \<open>Computed-feature augmenter\<close>

lemma fold_result_invariant:
  assumes "fold_result f xs s = Inr s'" "P s"
    and "\<And>x t t'. x \<in> set xs \<Longrightarrow> P t \<Longrightarrow> f x t = Inr t' \<Longrightarrow> P t'"
  shows "P s'"
  using assms
proof (induction xs arbitrary: s)
  case Nil
  then show ?case by simp
next
  case (Cons x xs)
  from Cons.prems(1) obtain t where t: "f x s = Inr t" "fold_result f xs t = Inr s'"
    by (auto split: sum.splits)
  have Pt: "P t" using Cons.prems(3)[of x s t] Cons.prems(2) t(1) by simp
  show ?case
  proof (rule Cons.IH[OF t(2) Pt])
    fix y u u' assume "y \<in> set xs" "P u" "f y u = Inr u'"
    then show "P u'" using Cons.prems(3)[of y u u'] by simp
  qed
qed

lemma odfv_map_range:
  "foldl (\<lambda>m odfv. m(name odfv \<mapsto> odfv)) m0 odfvs k = Some v \<Longrightarrow>
   v \<in> set odfvs \<or> m0 k = Some v"
proof (induction odfvs arbitrary: m0)
  case Nil
  then show ?case by simp
next
  case (Cons a odfvs)
  have "foldl (\<lambda>m odfv. m(name odfv \<mapsto> odfv)) (m0(name a \<mapsto> a)) odfvs k = Some v"
    using Cons.prems by (simp only: foldl.simps)
  from Cons.IH[OF this] show ?case
    by (auto split: if_splits)
qed

lemma populate_result_rows_from_columnar_eq:
  "populate_result_rows_from_columnar response data =
     \<lparr>feature_names = feature_names response @ map fst data,
      results = results response @
        map (\<lambda>item. \<lparr>fv_values = snd item,
                       statuses = replicate (length (snd item)) PRESENT,
                       event_timestamps = replicate (length (snd item)) Timestamp\<rparr>) data\<rparr>"
proof (induction data arbitrary: response)
  case Nil
  show ?case by (simp add: populate_result_rows_from_columnar_def)
next
  case (Cons item data)
  have "populate_result_rows_from_columnar response (item # data) =
        populate_result_rows_from_columnar
          \<lparr>feature_names = feature_names response @ [fst item],
           results = results response @
             [\<lparr>fv_values = snd item,
               statuses = replicate (length (snd item)) PRESENT,
               event_timestamps = replicate (length (snd item)) Timestamp\<rparr>]\<rparr> data"
    by (simp add: populate_result_rows_from_columnar_def)
  then show ?case by (simp add: Cons.IH)
qed

lemma odfv_vectors_props:
  assumes "odfv_vectors odfv df full_feature_names refs = (names, added)"
  shows "length names = length added"
    and "\<forall>fv\<in>set added.
           statuses fv = replicate (length (fv_values fv)) PRESENT \<and>
           event_timestamps fv = replicate (length (fv_values fv)) Timestamp \<and>
           fv_values fv \<in> snd ` set (get_transformed_features_df odfv df full_feature_names)"
  using assms by (force simp: odfv_vectors_def Let_def)+

lemma augment_appends:
  assumes "augment_response_with_on_demand_transforms response feature_refs odfvs
             full_feature_names = Inr response'"
  shows "\<exists>names added.
     feature_names response' = feature_names response @ names \<and>
     results response' = results response @ added \<and>
     length names = length added \<and>
     (\<forall>fv\<in>set added.
        statuses fv = replicate (length (fv_values fv)) PRESENT \<and>
        event_timestamps fv = replicate (length (fv_values fv)) Timestamp \<and>
        (\<exists>odfv\<in>set odfvs.
           fv_values fv \<in> snd ` set (get_transformed_features_df odfv (to_df response)
                                        full_feature_names)))"
proof -
  let ?m = "foldl (\<lambda>m odfv. m(name odfv \<mapsto> odfv)) Map.empty odfvs"
  let ?P = "\<lambda>r. \<exists>names added.
     feature_names r = feature_names response @ names \<and>
     results r = results response @ added \<and>
     length names = length added \<and>
     (\<forall>fv\<in>set added.
        statuses fv = replicate (length (fv_values fv)) PRESENT \<and>
        event_timestamps fv = replicate (length (fv_values fv)) Timestamp \<and>
        (\<exists>odfv\<in>set odfvs.
           fv_values fv \<in> snd ` set (get_transformed_features_df odfv (to_df response)
                                        full_feature_names)))"
  let ?step = "\<lambda>item r.
                     case ?m (fst item) of
                       None \<Rightarrow> Inl (KeyError (fst item))
                     | Some odfv \<Rightarrow>
                         let added = odfv_vectors odfv (to_df response) full_feature_names
                                       (snd item)
                         in Inr \<lparr>feature_names = feature_names r @ fst added,
                                 results = results r @ snd added\<rparr>"
  from assms obtain d where
    d: "fold_result ?step d response = Inr response'"
    by (auto simp: augment_response_with_on_demand_transforms_def Let_def split: sum.splits)
  have P0: "?P response" by simp
  have step: "?P t'" if "?P t" "?step item t = Inr t'" for item t t'
  proof -
    from that(2) obtain odfv where o: "?m (fst item) = Some odfv"
      by (auto split: option.splits)
    obtain ns ad where na: "odfv_vectors odfv (to_df response) full_feature_names (snd item)
                              = (ns, ad)" by (cases "odfv_vectors odfv (to_df response) full_feature_names (snd item)")
    have t': "t' = \<lparr>feature_names = feature_names t @ ns, results = results t @ ad\<rparr>"
      using that(2) o na by (simp add: Let_def)
    have mem: "odfv \<in> set odfvs" using odfv_map_range[OF o] by simp
    note pr = odfv_vectors_props[OF na]
    from that(1) obtain names added where
      old: "feature_names t = feature_names response @ names"
           "results t = results response @ added" "length names = length added"
           "\<forall>fv\<in>set added.
              statuses fv = replicate (length (fv_values fv)) PRESENT \<and>
              event_timestamps fv = replicate (length (fv_values fv)) Timestamp \<and>
              (\<exists>odfv\<in>set odfvs.
                 fv_values fv \<in> snd ` set (get_transformed_features_df odfv (to_df response)
                                              full_feature_names))"
      by blast
    have "\<forall>fv\<in>set (added @ ad).
              statuses fv = replicate (length (fv_values fv)) PRESENT \<and>
              event_timestamps fv = replicate (length (fv_values fv)) Timestamp \<and>
              (\<exists>odfv\<in>set odfvs.
                 fv_values fv \<in> snd ` set (get_transformed_features_df odfv (to_df response)
                                              full_feature_names))"
    proof
      fix fv assume "fv \<in> set (added @ ad)"
      then consider "fv \<in> set added" | "fv \<in> set ad" by auto
      then show "statuses fv = replicate (length (fv_values fv)) PRESENT \<and>
              event_timestamps fv = replicate (length (fv_values fv)) Timestamp \<and>
              (\<exists>odfv\<in>set odfvs.
                 fv_values fv \<in> snd ` set (get_transformed_features_df odfv (to_df response)
                                              full_feature_names))"
      proof cases
        case 1
        then show ?thesis using old(4) by blast
      next
        case 2
        then show ?thesis using pr(2) mem by blast
      qed
    qed
    moreover have "feature_names t' = feature_names response @ (names @ ns)"
      "results t' = results response @ (added @ ad)" "length (names @ ns) = length (added @ ad)"
      using t' old(1,2,3) pr(1) by simp_all
    ultimately show "?P t'" by blast
  qed
  show ?thesis
    by (rule fold_result_invariant[where P = ?P, OF d P0]) (rule step)
qed

text \<open>
  C10. Whenever the augmenter returns, the response is the one it was given followed by the
  vectors of the computed features, and every row of every such vector has the status
  \<open>PRESENT\<close>: the status list is \<open>PRESENT\<close> repeated once per value, whatever the statuses
  and values of the vectors the transformation read, so \<open>NOT_FOUND\<close> never occurs in it.
\<close>

theorem on_demand_vectors_all_present:
  assumes "augment_response_with_on_demand_transforms response feature_refs odfvs
             full_feature_names = Inr response'"
  shows "\<exists>added. results response' = results response @ added \<and>
     (\<forall>fv\<in>set added.
        statuses fv = replicate (length (fv_values fv)) PRESENT \<and>
        NOT_FOUND \<notin> set (statuses fv))"
proof -
  from augment_appends[OF assms] obtain names added where
    a: "results response' = results response @ added"
       "\<forall>fv\<in>set added. statuses fv = replicate (length (fv_values fv)) PRESENT"
    by blast
  have "\<forall>fv\<in>set added. NOT_FOUND \<notin> set (statuses fv)"
  proof
    fix fv assume "fv \<in> set added"
    then have "statuses fv = replicate (length (fv_values fv)) PRESENT" using a(2) by blast
    then show "NOT_FOUND \<notin> set (statuses fv)" by simp
  qed
  then show ?thesis using a by blast
qed

theorem on_demand_vectors_all_present_witness:
  "augment_response_with_on_demand_transforms
     \<lparr>feature_names = [''driver_id'', ''conv_rate''],
        results =
          [\<lparr>fv_values = [Some 1, Some 1, Some 2], statuses = [PRESENT, PRESENT, PRESENT],
             event_timestamps = [Timestamp, Timestamp, Timestamp]\<rparr>,
           \<lparr>fv_values = [Some 5, Some 5, None], statuses = [PRESENT, PRESENT, NOT_FOUND],
             event_timestamps = [\<lparr>seconds = 17, nanos = 0\<rparr>, \<lparr>seconds = 17, nanos = 0\<rparr>,
                                 Timestamp]\<rparr>]\<rparr>
     [''driver_stats:conv_rate'', ''conv_rate_pct:conv_rate_pct''] [conv_rate_pct] False
   = Inr \<lparr>feature_names = [''driver_id'', ''conv_rate'', ''conv_rate_pct''],
        results =
          [\<lparr>fv_values = [Some 1, Some 1, Some 2], statuses = [PRESENT, PRESENT, PRESENT],
             event_timestamps = [Timestamp, Timestamp, Timestamp]\<rparr>,
           \<lparr>fv_values = [Some 5, Some 5, None], statuses = [PRESENT, PRESENT, NOT_FOUND],
             event_timestamps = [\<lparr>seconds = 17, nanos = 0\<rparr>, \<lparr>seconds = 17, nanos = 0\<rparr>,
                                 Timestamp]\<rparr>,
           \<lparr>fv_values = [Some 500, Some 500, None], statuses = [PRESENT, PRESENT, PRESENT],
             event_timestamps = [Timestamp, Timestamp, Timestamp]\<rparr>]\<rparr>"
proof -
  have e: ?thesis by code_simp
  show ?thesis using on_demand_vectors_all_present[OF e] e by simp
qed

text \<open>
  C7, as the code has it. The echo columns are the data columns in order, each an
  all-\<open>PRESENT\<close> vector as long as its column (so of length \<open>N\<close> for a batch of \<open>N\<close> rows),
  and every vector appended by the augmenter is all-\<open>PRESENT\<close>; the timestamps of both are
  the default \<open>Timestamp()\<close>, seconds 0 and nanos 0, which is also what a fetched row gets
  when the backend reports no write time.
\<close>

theorem echo_and_computed_default_timestamp:
  "populate_result_rows_from_columnar \<lparr>feature_names = [], results = []\<rparr> data
     = \<lparr>feature_names = map fst data,
        results = map (\<lambda>item. \<lparr>fv_values = snd item,
                                statuses = replicate (length (snd item)) PRESENT,
                                event_timestamps = replicate (length (snd item)) Timestamp\<rparr>)
                    data\<rparr> \<and>
   ((\<forall>item\<in>set data. length (snd item) = N) \<longrightarrow>
      (\<forall>fv\<in>set (results (populate_result_rows_from_columnar
                              \<lparr>feature_names = [], results = []\<rparr> data)).
         length (fv_values fv) = N \<and> statuses fv = replicate N PRESENT \<and>
         event_timestamps fv = replicate N \<lparr>seconds = 0, nanos = 0\<rparr>)) \<and>
   (\<forall>response'.
      augment_response_with_on_demand_transforms response feature_refs odfvs
        full_feature_names = Inr response' \<longrightarrow>
      (\<exists>added. results response' = results response @ added \<and>
         (\<forall>fv\<in>set added.
            statuses fv = replicate (length (fv_values fv)) PRESENT \<and>
            event_timestamps fv
              = replicate (length (fv_values fv)) \<lparr>seconds = 0, nanos = 0\<rparr>)))"
proof (intro conjI allI impI)
  show "populate_result_rows_from_columnar \<lparr>feature_names = [], results = []\<rparr> data
     = \<lparr>feature_names = map fst data,
        results = map (\<lambda>item. \<lparr>fv_values = snd item,
                                statuses = replicate (length (snd item)) PRESENT,
                                event_timestamps = replicate (length (snd item)) Timestamp\<rparr>)
                    data\<rparr>"
    by (simp add: populate_result_rows_from_columnar_eq)
next
  assume "\<forall>item\<in>set data. length (snd item) = N"
  then show "\<forall>fv\<in>set (results (populate_result_rows_from_columnar
                              \<lparr>feature_names = [], results = []\<rparr> data)).
         length (fv_values fv) = N \<and> statuses fv = replicate N PRESENT \<and>
         event_timestamps fv = replicate N \<lparr>seconds = 0, nanos = 0\<rparr>"
    by (auto simp: populate_result_rows_from_columnar_eq Timestamp_def)
next
  fix response'
  assume "augment_response_with_on_demand_transforms response feature_refs odfvs
        full_feature_names = Inr response'"
  from augment_appends[OF this] obtain names added where
    a: "results response' = results response @ added"
       "\<forall>fv\<in>set added.
          statuses fv = replicate (length (fv_values fv)) PRESENT \<and>
          event_timestamps fv = replicate (length (fv_values fv)) Timestamp"
    by blast
  then show "\<exists>added. results response' = results response @ added \<and>
         (\<forall>fv\<in>set added.
            statuses fv = replicate (length (fv_values fv)) PRESENT \<and>
            event_timestamps fv
              = replicate (length (fv_values fv)) \<lparr>seconds = 0, nanos = 0\<rparr>)"
    unfolding Timestamp_def by blast
qed


theorem echo_and_computed_default_timestamp_witness:
  "populate_result_rows_from_columnar \<lparr>feature_names = [], results = []\<rparr>
     [(''driver_id'', [Some (1::int), Some 1, Some 2])]
   = \<lparr>feature_names = [''driver_id''],
      results = [\<lparr>fv_values = [Some 1, Some 1, Some 2], statuses = [PRESENT, PRESENT, PRESENT],
                  event_timestamps = [\<lparr>seconds = 0, nanos = 0\<rparr>, \<lparr>seconds = 0, nanos = 0\<rparr>,
                                      \<lparr>seconds = 0, nanos = 0\<rparr>]\<rparr>]\<rparr>"
proof -
  have h: "\<forall>item\<in>set [(''driver_id'', [Some (1::int), Some 1, Some 2])]. length (snd item) = 3"
    by simp
  note t = echo_and_computed_default_timestamp
    [where data = "[(''driver_id'', [Some (1::int), Some 1, Some 2])]" and N = 3]
  show ?thesis
    using t[THEN conjunct1] t[THEN conjunct2, THEN conjunct1, THEN mp, OF h]
    by (simp add: Timestamp_def)
qed

text \<open>
  C7, as stated, fails in the end-to-end scenario: the join-key echo column and the computed
  feature are stamped with seconds 0 and nanos 0, not with a clock reading, and the computed
  feature's timestamp in the third row equals the timestamp of the fetched feature there.
\<close>

theorem computed_timestamp_is_not_now:
  "get_online_features scenario_store
     (FeatureList [''driver_stats:conv_rate'', ''conv_rate_pct:conv_rate_pct''])
     [(''driver_id'', [Some 1, Some 1, Some 2])] False
   = ([(driver_stats, [[(''driver_id'', Some 1)], [(''driver_id'', Some 2)]], [''conv_rate''])],
      Inr \<lparr>feature_names = [''driver_id'', ''conv_rate'', ''conv_rate_pct''],
           results =
             [\<lparr>fv_values = [Some 1, Some 1, Some 2], statuses = [PRESENT, PRESENT, PRESENT],
                event_timestamps = [\<lparr>seconds = 0, nanos = 0\<rparr>, \<lparr>seconds = 0, nanos = 0\<rparr>,
                                    \<lparr>seconds = 0, nanos = 0\<rparr>]\<rparr>,
              \<lparr>fv_values = [Some 5, Some 5, None], statuses = [PRESENT, PRESENT, NOT_FOUND],
                event_timestamps = [\<lparr>seconds = 17, nanos = 0\<rparr>, \<lparr>seconds = 17, nanos = 0\<rparr>,
                                    \<lparr>seconds = 0, nanos = 0\<rparr>]\<rparr>,
              \<lparr>fv_values = [Some 500, Some 500, None], statuses = [PRESENT, PRESENT, PRESENT],
                event_timestamps = [\<lparr>seconds = 0, nanos = 0\<rparr>, \<lparr>seconds = 0, nanos = 0\<rparr>,
                                    \<lparr>seconds = 0, nanos = 0\<rparr>]\<rparr>]\<rparr>)"
  by code_simp

subsection \<open>The stages of the pipeline\<close>

lemma assign_all_length: "assign_all e ds out = Inr out' \<Longrightarrow> length out' = length out"
  by (induction ds arbitrary: out) (auto split: if_splits)

lemma scatter_length: "scatter lst idxs out = Inr out' \<Longrightarrow> length out' = length out"
proof (induction lst idxs out rule: scatter.induct)
  case (1 elem lst destinations mapping_indexes out0)
  from "1.prems" obtain o1 where
    o1: "assign_all elem destinations out0 = Inr o1" "scatter lst mapping_indexes o1 = Inr out'"
    by (auto split: sum.splits)
  then show ?case using "1.IH"[OF o1(1) o1(2)] assign_all_length[OF o1(1)] by simp
qed simp_all

lemma apply_list_mapping_length:
  "apply_list_mapping lst idxs = Inr out \<Longrightarrow> length out = sum_list (map length idxs)"
  unfolding apply_list_mapping_def by (drule scatter_length) simp

lemma those_length: "those xs = Some ys \<Longrightarrow> length ys = length xs"
  by (simp add: those_eq_Some)

lemma scatter_feature_lengths:
  assumes "scatter_feature tr idxs = Inr fv"
  shows "length (fv_values fv) = sum_list (map length idxs) \<and>
         length (statuses fv) = sum_list (map length idxs) \<and>
         length (event_timestamps fv) = sum_list (map length idxs)"
proof -
  obtain tv sv vv where tr: "tr = (tv, sv, vv)" by (cases tr) auto
  from assms tr obtain ov os ot where
    o: "apply_list_mapping vv idxs = Inr ov" "apply_list_mapping sv idxs = Inr os"
       "apply_list_mapping tv idxs = Inr ot" "FeatureVector ov os ot = Inr fv"
    by (auto simp: scatter_feature_def split: sum.splits)
  from o(4) obtain vs' ss' ts' where
    t: "those ov = Some vs'" "those os = Some ss'" "those ot = Some ts'"
       "fv = \<lparr>fv_values = vs', statuses = ss', event_timestamps = ts'\<rparr>"
    by (auto simp: FeatureVector_def split: option.splits)
  show ?thesis
    using t those_length[OF t(1)] those_length[OF t(2)] those_length[OF t(3)]
      apply_list_mapping_length[OF o(1)] apply_list_mapping_length[OF o(2)]
      apply_list_mapping_length[OF o(3)]
    by simp
qed

lemma scattered_vectors_lengths:
  "scattered_vectors trs idxs = Inr fvs \<Longrightarrow>
   \<forall>fv\<in>set fvs. length (fv_values fv) = sum_list (map length idxs) \<and>
         length (statuses fv) = sum_list (map length idxs) \<and>
         length (event_timestamps fv) = sum_list (map length idxs)"
proof (induction trs arbitrary: fvs)
  case Nil
  then show ?case by simp
next
  case (Cons tr trs)
  from Cons.prems obtain fv rest where
    f: "scatter_feature tr idxs = Inr fv" "scattered_vectors trs idxs = Inr rest"
       "fvs = fv # rest"
    by (auto split: sum.splits)
  show ?case using scatter_feature_lengths[OF f(1)] Cons.IH[OF f(2)] f(3) by simp
qed

lemma populate_response_appends:
  assumes "populate_response_from_feature_data feature_data idxs response full_feature_names
             requested_features table = Inr response'"
  shows "\<exists>names fvs. feature_names response' = feature_names response @ names \<and>
     results response' = results response @ fvs \<and>
     (\<forall>fv\<in>set fvs. length (fv_values fv) = sum_list (map length idxs) \<and>
         length (statuses fv) = sum_list (map length idxs) \<and>
         length (event_timestamps fv) = sum_list (map length idxs))"
proof -
  from assms obtain fvs where
    f: "scattered_vectors
          (zip (zip_star (map fst feature_data))
             (zip (zip_star (map (\<lambda>row. fst (snd row)) feature_data))
                (zip_star (map (\<lambda>row. snd (snd row)) feature_data)))) idxs = Inr fvs"
       "results response' = results response @ fvs"
       "feature_names response' = feature_names response @
          map (\<lambda>feature_name.
                 if full_feature_names
                 then name_to_use (projection table) @ ''__'' @ feature_name
                 else feature_name) requested_features"
    by (auto simp: populate_response_from_feature_data_def Let_def split: if_splits sum.splits)
  show ?thesis using f(2,3) scattered_vectors_lengths[OF f(1)] by blast
qed

lemma del_at_Inr: "del_at idx xs = Inr ys \<Longrightarrow> ys = take idx xs @ drop (Suc idx) xs"
  by (auto simp: del_at_def split: if_splits)

lemma set_del_subset: "set (take idx xs @ drop (Suc idx) xs) \<subseteq> set xs"
  using set_take_subset[of idx xs] set_drop_subset[of "Suc idx" xs] by auto

lemma drop_fold_names:
  assumes "fold_result
           (\<lambda>idx response.
              case del_at idx (feature_names response) of
                Inl e \<Rightarrow> Inl e
              | Inr names \<Rightarrow>
                  (case del_at idx (results response) of
                     Inl e \<Rightarrow> Inl e
                   | Inr vectors \<Rightarrow> Inr \<lparr>feature_names = names, results = vectors\<rparr>))
           idxs r = Inr r'"
  shows "feature_names r' = foldl (\<lambda>xs i. take i xs @ drop (Suc i) xs) (feature_names r) idxs
         \<and> set (results r') \<subseteq> set (results r)"
  using assms
proof (induction idxs arbitrary: r)
  case Nil
  then show ?case by simp
next
  case (Cons i idxs)
  from Cons.prems obtain names vectors where
    s: "del_at i (feature_names r) = Inr names" "del_at i (results r) = Inr vectors"
       "fold_result
           (\<lambda>idx response.
              case del_at idx (feature_names response) of
                Inl e \<Rightarrow> Inl e
              | Inr names \<Rightarrow>
                  (case del_at idx (results response) of
                     Inl e \<Rightarrow> Inl e
                   | Inr vectors \<Rightarrow> Inr \<lparr>feature_names = names, results = vectors\<rparr>))
           idxs \<lparr>feature_names = names, results = vectors\<rparr> = Inr r'"
    by (auto split: sum.splits)
  note ih = Cons.IH[OF s(3)]
  have n: "names = take i (feature_names r) @ drop (Suc i) (feature_names r)"
    by (rule del_at_Inr[OF s(1)])
  have v: "set vectors \<subseteq> set (results r)"
    using del_at_Inr[OF s(2)] set_del_subset[of i "results r"] by simp
  show ?case using ih n v by auto
qed

lemma unneeded_snoc:
  "map fst (filter (\<lambda>iv. snd iv \<notin> S) (List.enumerate 0 (ys @ [y]))) =
     map fst (filter (\<lambda>iv. snd iv \<notin> S) (List.enumerate 0 ys)) @
     (if y \<notin> S then [length ys] else [])"
  by (simp add: enumerate_append_eq)

lemma delete_unneeded:
  "foldl (\<lambda>xs i. take i xs @ drop (Suc i) xs) (ys @ zs)
     (rev (map fst (filter (\<lambda>iv. snd iv \<notin> S) (List.enumerate 0 ys))))
   = filter (\<lambda>n. n \<in> S) ys @ zs"
proof (induction ys arbitrary: zs rule: rev_induct)
  case Nil
  then show ?case by simp
next
  case (snoc y ys)
  show ?case
  proof (cases "y \<in> S")
    case True
    then show ?thesis using snoc[of "y # zs"] by (simp add: unneeded_snoc)
  next
    case False
    then show ?thesis using snoc[of zs] by (simp add: unneeded_snoc)
  qed
qed

lemma drop_unneeded_columns_filter:
  assumes "drop_unneeded_columns r S = Inr r'"
  shows "feature_names r' = filter (\<lambda>n. n \<in> set S) (feature_names r)"
    and "set (results r') \<subseteq> set (results r)"
proof -
  note d = drop_fold_names[OF assms[unfolded drop_unneeded_columns_def Let_def]]
  show "feature_names r' = filter (\<lambda>n. n \<in> set S) (feature_names r)"
    using d delete_unneeded[of "feature_names r" "[]" "set S"] by simp
  show "set (results r') \<subseteq> set (results r)" using d by simp
qed

lemma dict_set_keys: "fst ` set (dict_set k v d) = insert k (fst ` set d)"
  by (induction d) (force split: if_splits)+

lemma set_set_add: "set (set_add x s) = insert x (set s)"
  by (auto simp: set_add_def)

lemma split_entity_row_cases:
  assumes "split_entity_row nrd nrfv jks m item s = Inr s'"
  obtains (request) rn where
      "s' = s\<lparr>er_result_row_names := rn,
              er_request_data_features :=
                dict_set (fst item) (snd item) (er_request_data_features s)\<rparr>"
      "set (er_result_row_names s) \<subseteq> set rn"
      "fst item \<in> set nrd \<or> fst item \<in> set nrfv"
  | (join_key) jk where
      "s' = s\<lparr>er_result_row_names := set_add jk (er_result_row_names s),
              er_join_key_values := dict_set jk (snd item) (er_join_key_values s)\<rparr>"
      "fst item \<notin> set nrd" "fst item \<notin> set nrfv"
      "fst item \<in> set jks \<longrightarrow> jk = fst item"
proof (cases "fst item \<in> set nrd \<or> fst item \<in> set nrfv")
  case True
  let ?rn = "if fst item \<in> set nrfv then set_add (fst item) (er_result_row_names s)
             else er_result_row_names s"
  have "s' = s\<lparr>er_result_row_names := ?rn,
              er_request_data_features :=
                dict_set (fst item) (snd item) (er_request_data_features s)\<rparr>"
    using assms True by (simp add: split_entity_row_def Let_def)
  moreover have "set (er_result_row_names s) \<subseteq> set ?rn" by (auto simp: set_set_add)
  ultimately show ?thesis using True by (rule request)
next
  case False
  then have f: "fst item \<notin> set nrd" "fst item \<notin> set nrfv" by simp_all
  show ?thesis
  proof (cases "fst item \<in> set jks")
    case True
    have "s' = s\<lparr>er_result_row_names := set_add (fst item) (er_result_row_names s),
              er_join_key_values := dict_set (fst item) (snd item) (er_join_key_values s)\<rparr>"
      using assms f True by (simp add: split_entity_row_def Let_def)
    then show ?thesis using f by (rule join_key) simp
  next
    case nj: False
    then obtain jk where jk: "m (fst item) = Some jk"
      using assms f by (auto simp: split_entity_row_def Let_def split: option.splits)
    have "s' = s\<lparr>er_result_row_names := set_add jk (er_result_row_names s),
              er_join_key_values := dict_set jk (snd item) (er_join_key_values s)\<rparr>"
      using assms f nj jk by (simp add: split_entity_row_def Let_def)
    then show ?thesis using f by (rule join_key) (simp add: nj)
  qed
qed

lemma split_entity_row_step:
  assumes "split_entity_row nrd nrfv jks m item s = Inr s'"
  shows "set (er_result_row_names s) \<subseteq> set (er_result_row_names s')"
    and "fst ` set (er_join_key_values s) \<subseteq> fst ` set (er_join_key_values s')"
    and "fst ` set (er_join_key_values s) \<subseteq> set (er_result_row_names s) \<Longrightarrow>
         fst ` set (er_join_key_values s') \<subseteq> set (er_result_row_names s')"
    and "snd ` set (er_join_key_values s') \<union> snd ` set (er_request_data_features s')
           \<subseteq> insert (snd item)
               (snd ` set (er_join_key_values s) \<union> snd ` set (er_request_data_features s))"
    and "fst item \<notin> set nrd \<Longrightarrow> fst item \<notin> set nrfv \<Longrightarrow> fst item \<in> set jks \<Longrightarrow>
         fst item \<in> fst ` set (er_join_key_values s')"
proof -
  show "set (er_result_row_names s) \<subseteq> set (er_result_row_names s')"
    using assms by (cases rule: split_entity_row_cases) (simp_all add: set_set_add subset_insertI)
  show "fst ` set (er_join_key_values s) \<subseteq> fst ` set (er_join_key_values s')"
    using assms by (cases rule: split_entity_row_cases) (simp_all add: dict_set_keys subset_insertI)
  show "fst ` set (er_join_key_values s') \<subseteq> set (er_result_row_names s')"
    if h: "fst ` set (er_join_key_values s) \<subseteq> set (er_result_row_names s)"
    using assms
  proof (cases rule: split_entity_row_cases)
    case (request rn)
    then show ?thesis using h by simp
  next
    case (join_key jk)
    then show ?thesis using h by (simp add: dict_set_keys set_set_add subset_insertI2)
  qed
  show "snd ` set (er_join_key_values s') \<union> snd ` set (er_request_data_features s')
           \<subseteq> insert (snd item)
               (snd ` set (er_join_key_values s) \<union> snd ` set (er_request_data_features s))"
    using assms
  proof (cases rule: split_entity_row_cases)
    case (request rn)
    then show ?thesis
      using dict_set_values[of "fst item" "snd item" "er_request_data_features s"] by auto
  next
    case (join_key jk)
    then show ?thesis
      using dict_set_values[of jk "snd item" "er_join_key_values s"] by auto
  qed
  show "fst item \<in> fst ` set (er_join_key_values s')"
    if h: "fst item \<notin> set nrd" "fst item \<notin> set nrfv" "fst item \<in> set jks"
    using assms
  proof (cases rule: split_entity_row_cases)
    case (request rn)
    then show ?thesis using h by simp
  next
    case (join_key jk)
    then show ?thesis using h by (simp add: dict_set_keys)
  qed
qed

lemma entity_rows_loop:
  assumes "fold_result (split_entity_row nrd nrfv jks m) items s = Inr s'"
  shows "set (er_result_row_names s) \<subseteq> set (er_result_row_names s')"
    and "fst ` set (er_join_key_values s) \<subseteq> fst ` set (er_join_key_values s')"
    and "fst ` set (er_join_key_values s) \<subseteq> set (er_result_row_names s) \<Longrightarrow>
         fst ` set (er_join_key_values s') \<subseteq> set (er_result_row_names s')"
    and "snd ` set (er_join_key_values s') \<union> snd ` set (er_request_data_features s')
           \<subseteq> snd ` set items \<union>
               (snd ` set (er_join_key_values s) \<union> snd ` set (er_request_data_features s))"
    and "\<forall>item\<in>set items.
           fst item \<notin> set nrd \<and> fst item \<notin> set nrfv \<and> fst item \<in> set jks \<longrightarrow>
           fst item \<in> fst ` set (er_join_key_values s')"
  using assms
proof (induction items arbitrary: s)
  case Nil
  {
    case 1 then show ?case by simp
  next
    case 2 then show ?case by simp
  next
    case 3 then show ?case by simp
  next
    case 4 then show ?case by simp
  next
    case 5 then show ?case by simp
  }
next
  case (Cons item items)
  {
    case 1
    then obtain t where t: "split_entity_row nrd nrfv jks m item s = Inr t"
      "fold_result (split_entity_row nrd nrfv jks m) items t = Inr s'"
      by (auto split: sum.splits)
    show ?case using split_entity_row_step(1)[OF t(1)] Cons.IH(1)[OF t(2)] by blast
  next
    case 2
    then obtain t where t: "split_entity_row nrd nrfv jks m item s = Inr t"
      "fold_result (split_entity_row nrd nrfv jks m) items t = Inr s'"
      by (auto split: sum.splits)
    show ?case using split_entity_row_step(2)[OF t(1)] Cons.IH(2)[OF t(2)] by blast
  next
    case 3
    then obtain t where t: "split_entity_row nrd nrfv jks m item s = Inr t"
      "fold_result (split_entity_row nrd nrfv jks m) items t = Inr s'"
      by (auto split: sum.splits)
    show ?case using split_entity_row_step(3)[OF t(1)] Cons.IH(3)[OF _ t(2)] 3(1) by blast
  next
    case 4
    then obtain t where t: "split_entity_row nrd nrfv jks m item s = Inr t"
      "fold_result (split_entity_row nrd nrfv jks m) items t = Inr s'"
      by (auto split: sum.splits)
    have "snd ` set (er_join_key_values s') \<union> snd ` set (er_request_data_features s')
            \<subseteq> snd ` set items \<union>
               (snd ` set (er_join_key_values t) \<union> snd ` set (er_request_data_features t))"
      by (rule Cons.IH(4)[OF t(2)])
    also have "\<dots> \<subseteq> snd ` set items \<union> insert (snd item)
               (snd ` set (er_join_key_values s) \<union> snd ` set (er_request_data_features s))"
      using split_entity_row_step(4)[OF t(1)] by blast
    also have "\<dots> = snd ` set (item # items) \<union>
               (snd ` set (er_join_key_values s) \<union> snd ` set (er_request_data_features s))"
      by auto
    finally show ?case .
  next
    case 5
    then obtain t where t: "split_entity_row nrd nrfv jks m item s = Inr t"
      "fold_result (split_entity_row nrd nrfv jks m) items t = Inr s'"
      by (auto split: sum.splits)
    show ?case
      using split_entity_row_step(5)[OF t(1)] Cons.IH(2)[OF t(2)] Cons.IH(5)[OF t(2)]
      by auto
  }
qed

lemma zip_star_Nil: "zip_star [] = []"
  by (simp add: zip_star_def)

lemma get_unique_entities_returned:
  assumes r: "get_unique_entities native table jkv m = Inr (ue, idxs)"
    and cols: "\<forall>col\<in>snd ` set jkv. length col = N"
  shows "partitions idxs N" "sum_list (map length idxs) = N"
proof -
  from r obtain tev where tev: "get_table_entity_values table m jkv = Inr tev"
    by (auto simp: get_unique_entities_def split: sum.splits)
  let ?rows = "zip_star (map snd tev)"
  let ?sorted = "sort_key (\<lambda>row. map native (snd row)) (List.enumerate 0 ?rows)"
  have g: "groupby snd ?sorted \<noteq> []"
    using r tev by (auto simp: get_unique_entities_def Let_def split: if_splits)
  then have "?sorted \<noteq> []" by (simp only: groupby_Nil_iff not_False_eq_True)
  then have "length ?sorted \<noteq> 0" by (simp only: length_0_conv not_False_eq_True)
  then have rne: "length ?rows \<noteq> 0" by simp
  have ne: "tev \<noteq> []"
  proof
    assume "tev = []"
    then have "?rows = []" by (simp add: zip_star_Nil)
    then show False using rne by simp
  qed
  have cne: "map snd tev \<noteq> []" using ne by simp
  have clen: "\<forall>xs\<in>set (map snd tev). length xs = N"
  proof
    fix xs assume "xs \<in> set (map snd tev)"
    then have "xs \<in> snd ` set tev" by simp
    then have "xs \<in> snd ` set jkv"
      using get_table_entity_values_columns[OF tev] by (rule subsetD[rotated])
    then show "length xs = N" using cols by (rule bspec[rotated])
  qed
  have "length ?rows = N" by (rule zip_star_rect(1)[OF cne clen])
  then have N: "0 < N" using rne by simp
  from get_unique_entities_total[OF tev ne cols N, of native] obtain ue' idxs' where
    t: "get_unique_entities native table jkv m = Inr (ue', idxs')" "partitions idxs' N"
       "sum_list (map length idxs') = N"
    by blast
  from t(1) r have "idxs' = idxs" by simp
  then show "partitions idxs N" "sum_list (map length idxs) = N" using t(2,3) by simp_all
qed

lemma read_tables_appends:
  assumes "read_tables store full_feature_names jkv grouped reads0 r = (reads, Inr r')"
    and cols: "\<forall>col\<in>snd ` set jkv. length col = N"
  shows "\<exists>names fvs. feature_names r' = feature_names r @ names \<and>
     results r' = results r @ fvs \<and>
     (\<forall>fv\<in>set fvs. length (fv_values fv) = N \<and> length (statuses fv) = N \<and>
         length (event_timestamps fv) = N)"
  using assms(1)
proof (induction grouped arbitrary: reads0 r)
  case Nil
  then show ?case by simp
next
  case (Cons g grouped)
  let ?table = "fst g" and ?rf = "snd g"
  from Cons.prems obtain ue idxs where
    u: "get_unique_entities (native_value store) ?table jkv (entity_name_to_join_key store)
          = Inr (ue, idxs)"
    by (auto simp: Let_def split: sum.splits)
  from Cons.prems u obtain fd where
    fd: "read_from_online_store (provider store) (from_datetime store) (null_proto store)
           ue ?rf ?table = Inr fd"
    by (auto simp: Let_def split: sum.splits)
  from Cons.prems u fd obtain r1 where
    r1: "populate_response_from_feature_data fd idxs r full_feature_names ?rf ?table = Inr r1"
    by (auto simp: Let_def split: sum.splits)
  have rest: "read_tables store full_feature_names jkv grouped
                (reads0 @ [(?table, ue, ?rf)]) r1 = (reads, Inr r')"
    using Cons.prems u fd r1 by (simp add: Let_def)
  from Cons.IH[OF rest] obtain names2 fvs2 where
    b: "feature_names r' = feature_names r1 @ names2" "results r' = results r1 @ fvs2"
       "\<forall>fv\<in>set fvs2. length (fv_values fv) = N \<and> length (statuses fv) = N \<and>
         length (event_timestamps fv) = N"
    by blast
  have sum: "sum_list (map length idxs) = N"
    by (rule get_unique_entities_returned(2)[OF u cols])
  from populate_response_appends[OF r1] obtain names1 fvs1 where
    a: "feature_names r1 = feature_names r @ names1" "results r1 = results r @ fvs1"
       "\<forall>fv\<in>set fvs1. length (fv_values fv) = N \<and> length (statuses fv) = N \<and>
         length (event_timestamps fv) = N"
    unfolding sum by blast
  have "feature_names r' = feature_names r @ (names1 @ names2)"
    "results r' = results r @ (fvs1 @ fvs2)"
    using a(1,2) b(1,2) by simp_all
  moreover have "\<forall>fv\<in>set (fvs1 @ fvs2). length (fv_values fv) = N \<and> length (statuses fv) = N \<and>
         length (event_timestamps fv) = N"
    using a(3) b(3) by auto
  ultimately show ?case by blast
qed

lemma validate_entity_values_rows:
  assumes "validate_entity_values epv = Inr n" "\<forall>c\<in>set epv. length (snd c) = N"
  shows "n = N"
proof -
  let ?ls = "remdups (map (\<lambda>item. length (snd item)) epv)"
  from assms(1) obtain rest where l: "?ls = n # rest"
    by (auto simp: validate_entity_values_def Let_def split: if_splits list.splits)
  then have "n \<in> set ?ls" by simp
  then have "n \<in> (\<lambda>item. length (snd item)) ` set epv" by simp
  then show ?thesis using assms(2) by auto
qed

lemma get_online_features_returned:
  assumes "get_online_features store fs epv full_feature_names = (reads, Inr response)"
  obtains feature_refs num_rows grouped_refs grouped_odfv_refs grouped_request_fv_refs rvr rows
  where "get_features (registry_get_feature_service store) fs = Inr feature_refs"
    and "validate_entity_values epv = Inr num_rows"
    and "group_feature_refs (projection_get_feature store) feature_refs
           (feature_views_to_use store) (request_feature_views_to_use store)
           (on_demand_feature_views_to_use store)
         = Inr (grouped_refs, grouped_odfv_refs, grouped_request_fv_refs, rvr)"
    and "fold_result
           (split_entity_row
              (fst (get_needed_request_data grouped_odfv_refs grouped_request_fv_refs))
              (snd (get_needed_request_data grouped_odfv_refs grouped_request_fv_refs))
              (join_keys store) (entity_name_to_join_key store))
           epv
           \<lparr>er_result_row_names = requested_result_row_names feature_refs full_feature_names,
            er_join_key_values = [], er_request_data_features = []\<rparr> = Inr rows"
    and "assemble_response store feature_refs full_feature_names num_rows grouped_refs
           grouped_odfv_refs rows = (reads, Inr response)"
proof -
  from assms obtain feature_refs where
    a: "get_features (registry_get_feature_service store) fs = Inr feature_refs"
    by (cases "get_features (registry_get_feature_service store) fs")
       (simp_all add: get_online_features_def)
  from assms a obtain num_rows where b: "validate_entity_values epv = Inr num_rows"
    by (cases "validate_entity_values epv") (simp_all add: get_online_features_def)
  from assms a b obtain u where c: "validate_feature_refs feature_refs full_feature_names = Inr u"
    by (cases "validate_feature_refs feature_refs full_feature_names")
       (simp_all add: get_online_features_def)
  from assms a b c obtain g where
    g: "group_feature_refs (projection_get_feature store) feature_refs
           (feature_views_to_use store) (request_feature_views_to_use store)
           (on_demand_feature_views_to_use store) = Inr g"
    by (cases "group_feature_refs (projection_get_feature store) feature_refs
           (feature_views_to_use store) (request_feature_views_to_use store)
           (on_demand_feature_views_to_use store)")
       (simp_all add: get_online_features_def)
  obtain grouped_refs grouped_odfv_refs grouped_request_fv_refs rvr where
    gd: "g = (grouped_refs, grouped_odfv_refs, grouped_request_fv_refs, rvr)"
    by (cases g) auto
  let ?needed = "get_needed_request_data grouped_odfv_refs grouped_request_fv_refs"
  let ?loop = "fold_result
           (split_entity_row (fst ?needed) (snd ?needed)
              (join_keys store) (entity_name_to_join_key store))
           epv
           \<lparr>er_result_row_names = requested_result_row_names feature_refs full_feature_names,
            er_join_key_values = [], er_request_data_features = []\<rparr>"
  from assms a b c g gd obtain rows where r: "?loop = Inr rows"
    by (cases ?loop) (simp_all add: get_online_features_def Let_def)
  from assms a b c g gd r obtain u2 where
    e: "ensure_request_data_values_exist (fst ?needed) (snd ?needed)
          (er_request_data_features rows) = Inr u2"
    by (cases "ensure_request_data_values_exist (fst ?needed) (snd ?needed)
          (er_request_data_features rows)")
       (simp_all add: get_online_features_def Let_def)
  have "assemble_response store feature_refs full_feature_names num_rows grouped_refs
           grouped_odfv_refs rows = (reads, Inr response)"
    using assms a b c g gd r e by (simp add: get_online_features_def Let_def)
  then show ?thesis using that a b g gd r by blast
qed

lemma assemble_response_returned:
  assumes "assemble_response store feature_refs full_feature_names num_rows grouped_refs
             grouped_odfv_refs rows = (reads, Inr response)"
  obtains jkv fetched augmented where
    "jkv = er_join_key_values rows \<or>
     jkv = dict_set (dummy_entity_id store) (replicate num_rows (dummy_entity_val store))
             (er_join_key_values rows)"
    and "read_tables store full_feature_names jkv grouped_refs []
           (populate_result_rows_from_columnar \<lparr>feature_names = [], results = []\<rparr>
              (er_join_key_values rows @ er_request_data_features rows))
         = (reads, Inr fetched)"
    and "augmented = fetched \<or>
         augment_response_with_on_demand_transforms fetched feature_refs
           (on_demand_feature_views_to_use store) full_feature_names = Inr augmented"
    and "drop_unneeded_columns augmented (er_result_row_names rows) = Inr response"
proof -
  let ?r0 = "populate_result_rows_from_columnar \<lparr>feature_names = [], results = []\<rparr>
              (er_join_key_values rows @ er_request_data_features rows)"
  let ?jkv = "if dummy_entity_name store \<in> set (concat (map entities (map fst grouped_refs)))
              then dict_set (dummy_entity_id store)
                     (replicate num_rows (dummy_entity_val store)) (er_join_key_values rows)
              else er_join_key_values rows"
  have nd: "\<not> (\<exists>k \<in> fst ` set (er_join_key_values rows).
                 k \<in> fst ` set (er_request_data_features rows))"
  proof
    assume "\<exists>k \<in> fst ` set (er_join_key_values rows).
                 k \<in> fst ` set (er_request_data_features rows)"
    then have "assemble_response store feature_refs full_feature_names num_rows grouped_refs
             grouped_odfv_refs rows = ([], Inl TypeError)"
      by (simp only: assemble_response_def if_True)
    then show False using assms by simp
  qed
  obtain rd res where rt: "read_tables store full_feature_names ?jkv grouped_refs [] ?r0 = (rd, res)"
    by (cases "read_tables store full_feature_names ?jkv grouped_refs [] ?r0")
  have unf: "assemble_response store feature_refs full_feature_names num_rows grouped_refs
             grouped_odfv_refs rows =
        (case res of
           Inl e \<Rightarrow> (rd, Inl e)
         | Inr fetched \<Rightarrow>
             (case (if grouped_odfv_refs \<noteq> []
                    then augment_response_with_on_demand_transforms fetched feature_refs
                           (on_demand_feature_views_to_use store) full_feature_names
                    else Inr fetched) of
                Inl e \<Rightarrow> (rd, Inl e)
              | Inr augmented \<Rightarrow>
                  (rd, drop_unneeded_columns augmented (er_result_row_names rows))))"
    unfolding assemble_response_def Let_def if_not_P[OF nd] rt by simp
  from assms unf obtain fetched where f: "res = Inr fetched"
    by (cases res) simp_all
  let ?aug = "if grouped_odfv_refs \<noteq> []
                    then augment_response_with_on_demand_transforms fetched feature_refs
                           (on_demand_feature_views_to_use store) full_feature_names
                    else Inr fetched"
  from assms unf f obtain augmented where au: "?aug = Inr augmented"
    by (cases ?aug) simp_all
  have fin: "rd = reads" "drop_unneeded_columns augmented (er_result_row_names rows) = Inr response"
    using assms unf f au by simp_all
  have j: "?jkv = er_join_key_values rows \<or>
     ?jkv = dict_set (dummy_entity_id store) (replicate num_rows (dummy_entity_val store))
             (er_join_key_values rows)" by simp
  have a2: "augmented = fetched \<or>
         augment_response_with_on_demand_transforms fetched feature_refs
           (on_demand_feature_views_to_use store) full_feature_names = Inr augmented"
    using au by (auto split: if_splits)
  show ?thesis
    by (rule that[OF j _ a2 fin(2)]) (use rt f fin(1) in simp)
qed




subsection \<open>Shape of the response and final trim\<close>

text \<open>
  C3. For every request on which the method returns a response, with a batch of \<open>N\<close> rows
  (every entity-value column of length \<open>N\<close>) and on-demand transformations that return
  columns of as many rows as they are given, every feature vector of the returned response,
  that is every vector that survives the final trim, has exactly \<open>N\<close> values, \<open>N\<close> statuses
  and \<open>N\<close> event timestamps.
\<close>

theorem response_has_batch_rows:
  assumes ret: "get_online_features store fs entity_proto_values full_feature_names
                  = (reads, Inr response)"
    and batch: "\<forall>c\<in>set entity_proto_values. length (snd c) = N"
    and transforms:
      "\<forall>odfv\<in>set (on_demand_feature_views_to_use store). \<forall>df b.
         (\<forall>c\<in>set df. length (snd c) = N) \<longrightarrow>
         (\<forall>c\<in>set (get_transformed_features_df odfv df b). length (snd c) = N)"
  shows "\<forall>fv\<in>set (results response).
           length (fv_values fv) = N \<and> length (statuses fv) = N \<and>
           length (event_timestamps fv) = N"
proof -
  let ?P = "\<lambda>fv::'a feature_vector. length (fv_values fv) = N \<and> length (statuses fv) = N \<and>
           length (event_timestamps fv) = N"
  from ret obtain feature_refs num_rows grouped_refs grouped_odfv_refs grouped_request_fv_refs
    rvr rows where
    gf: "get_features (registry_get_feature_service store) fs = Inr feature_refs"
    and v: "validate_entity_values entity_proto_values = Inr num_rows"
    and grp: "group_feature_refs (projection_get_feature store) feature_refs
           (feature_views_to_use store) (request_feature_views_to_use store)
           (on_demand_feature_views_to_use store)
         = Inr (grouped_refs, grouped_odfv_refs, grouped_request_fv_refs, rvr)"
    and loop: "fold_result
           (split_entity_row
              (fst (get_needed_request_data grouped_odfv_refs grouped_request_fv_refs))
              (snd (get_needed_request_data grouped_odfv_refs grouped_request_fv_refs))
              (join_keys store) (entity_name_to_join_key store))
           entity_proto_values
           \<lparr>er_result_row_names = requested_result_row_names feature_refs full_feature_names,
            er_join_key_values = [], er_request_data_features = []\<rparr> = Inr rows"
    and asm: "assemble_response store feature_refs full_feature_names num_rows grouped_refs
           grouped_odfv_refs rows = (reads, Inr response)"
    by (rule get_online_features_returned)
  have n: "num_rows = N" by (rule validate_entity_values_rows[OF v batch])
  have cols: "snd ` set (er_join_key_values rows) \<union> snd ` set (er_request_data_features rows)
                \<subseteq> snd ` set entity_proto_values"
    using entity_rows_loop(4)[OF loop] by simp
  have colN: "length col = N"
    if "col \<in> snd ` set (er_join_key_values rows) \<union> snd ` set (er_request_data_features rows)"
    for col
  proof -
    from that cols have "col \<in> snd ` set entity_proto_values" by blast
    then show ?thesis using batch by auto
  qed
  from asm obtain jkv fetched augmented where
    j: "jkv = er_join_key_values rows \<or>
        jkv = dict_set (dummy_entity_id store) (replicate num_rows (dummy_entity_val store))
                (er_join_key_values rows)"
    and rt: "read_tables store full_feature_names jkv grouped_refs []
           (populate_result_rows_from_columnar \<lparr>feature_names = [], results = []\<rparr>
              (er_join_key_values rows @ er_request_data_features rows))
         = (reads, Inr fetched)"
    and au: "augmented = fetched \<or>
         augment_response_with_on_demand_transforms fetched feature_refs
           (on_demand_feature_views_to_use store) full_feature_names = Inr augmented"
    and dr: "drop_unneeded_columns augmented (er_result_row_names rows) = Inr response"
    by (rule assemble_response_returned)
  let ?r0 = "populate_result_rows_from_columnar \<lparr>feature_names = [], results = []\<rparr>
              (er_join_key_values rows @ er_request_data_features rows)"
  have r0: "\<forall>fv\<in>set (results ?r0). ?P fv"
  proof
    fix fv assume "fv \<in> set (results ?r0)"
    then obtain item where
      i: "item \<in> set (er_join_key_values rows @ er_request_data_features rows)"
         "fv = \<lparr>fv_values = snd item, statuses = replicate (length (snd item)) PRESENT,
                event_timestamps = replicate (length (snd item)) Timestamp\<rparr>"
      by (auto simp: populate_result_rows_from_columnar_eq)
    have "length (snd item) = N" using i(1) by (intro colN) auto
    then show "?P fv" using i(2) by simp
  qed
  have jN: "\<forall>col\<in>snd ` set jkv. length col = N"
  proof
    fix col assume c: "col \<in> snd ` set jkv"
    from j show "length col = N"
    proof
      assume "jkv = er_join_key_values rows"
      then show ?thesis using c by (intro colN) simp
    next
      assume "jkv = dict_set (dummy_entity_id store)
                      (replicate num_rows (dummy_entity_val store)) (er_join_key_values rows)"
      then have "col \<in> insert (replicate num_rows (dummy_entity_val store))
                         (snd ` set (er_join_key_values rows))"
        using c dict_set_values[of "dummy_entity_id store"
                  "replicate num_rows (dummy_entity_val store)" "er_join_key_values rows"]
        by blast
      then show ?thesis using n colN by auto
    qed
  qed
  from read_tables_appends[OF rt jN] obtain names fvs where
    f: "results fetched = results ?r0 @ fvs" "\<forall>fv\<in>set fvs. ?P fv"
    by blast
  have fetched: "\<forall>fv\<in>set (results fetched). ?P fv" using f r0 by auto
  have augm: "\<forall>fv\<in>set (results augmented). ?P fv"
    using au
  proof
    assume "augmented = fetched"
    then show ?thesis using fetched by simp
  next
    assume "augment_response_with_on_demand_transforms fetched feature_refs
           (on_demand_feature_views_to_use store) full_feature_names = Inr augmented"
    from augment_appends[OF this] obtain names2 added where
      a: "results augmented = results fetched @ added"
         "\<forall>fv\<in>set added.
            statuses fv = replicate (length (fv_values fv)) PRESENT \<and>
            event_timestamps fv = replicate (length (fv_values fv)) Timestamp \<and>
            (\<exists>odfv\<in>set (on_demand_feature_views_to_use store).
               fv_values fv \<in> snd ` set (get_transformed_features_df odfv (to_df fetched)
                                            full_feature_names))"
      by blast
    have df: "\<forall>c\<in>set (to_df fetched). length (snd c) = N"
    proof
      fix c assume "c \<in> set (to_df fetched)"
      then have "snd c \<in> set (map fv_values (results fetched))"
        unfolding to_df_def by (metis prod.collapse set_zip_rightD)
      then show "length (snd c) = N" using fetched by auto
    qed
    have "\<forall>fv\<in>set added. ?P fv"
    proof
      fix fv assume m: "fv \<in> set added"
      with a(2) obtain odfv where
        o: "odfv \<in> set (on_demand_feature_views_to_use store)"
           "fv_values fv \<in> snd ` set (get_transformed_features_df odfv (to_df fetched)
                                        full_feature_names)"
        by blast
      have "\<forall>c\<in>set (get_transformed_features_df odfv (to_df fetched) full_feature_names).
              length (snd c) = N"
        using transforms o(1) df by blast
      then have "length (fv_values fv) = N" using o(2) by auto
      then show "?P fv" using a(2) m by simp
    qed
    then show ?thesis using a(1) fetched by auto
  qed
  have "set (results response) \<subseteq> set (results augmented)"
    by (rule drop_unneeded_columns_filter(2)[OF dr])
  then show ?thesis using augm by blast
qed

theorem response_has_batch_rows_witness:
  "get_online_features scenario_store
     (FeatureList [''driver_stats:conv_rate'', ''conv_rate_pct:conv_rate_pct''])
     [(''driver_id'', [Some 1, Some 1, Some 2])] True
   = ([(driver_stats, [[(''driver_id'', Some 1)], [(''driver_id'', Some 2)]], [''conv_rate''])],
      Inr \<lparr>feature_names = [''driver_id'', ''driver_stats__conv_rate'', ''conv_rate_pct__conv_rate_pct''],
           results =
             [\<lparr>fv_values = [Some 1, Some 1, Some 2], statuses = [PRESENT, PRESENT, PRESENT],
                event_timestamps = [\<lparr>seconds = 0, nanos = 0\<rparr>, \<lparr>seconds = 0, nanos = 0\<rparr>,
                                    \<lparr>seconds = 0, nanos = 0\<rparr>]\<rparr>,
              \<lparr>fv_values = [Some 5, Some 5, None], statuses = [PRESENT, PRESENT, NOT_FOUND],
                event_timestamps = [\<lparr>seconds = 17, nanos = 0\<rparr>, \<lparr>seconds = 17, nanos = 0\<rparr>,
                                    \<lparr>seconds = 0, nanos = 0\<rparr>]\<rparr>,
              \<lparr>fv_values = [Some 500, Some 500, None], statuses = [PRESENT, PRESENT, PRESENT],
                event_timestamps = [\<lparr>seconds = 0, nanos = 0\<rparr>, \<lparr>seconds = 0, nanos = 0\<rparr>,
                                    \<lparr>seconds = 0, nanos = 0\<rparr>]\<rparr>]\<rparr>)"
proof -
  have ret: ?thesis by code_simp
  have batch: "\<forall>c\<in>set [(''driver_id'', [Some (1::int), Some 1, Some 2])]. length (snd c) = 3"
    by simp
  have tr: "\<forall>odfv\<in>set (on_demand_feature_views_to_use scenario_store). \<forall>df b.
         (\<forall>c\<in>set df. length (snd c) = 3) \<longrightarrow>
         (\<forall>c\<in>set (get_transformed_features_df odfv df b). length (snd c) = 3)"
    apply (auto simp: scenario_store_def conv_rate_pct_def split: option.splits)
     apply (metis map_of_SomeD snd_conv)+
    done
  show ?thesis using response_has_batch_rows[OF ret batch tr] ret by simp
qed



subsection \<open>Scatter by composite key\<close>

lemma groupby_keys_subset: "fst ` set (groupby g xs) \<subseteq> g ` set xs"
proof (induction g xs rule: groupby.induct)
  case (1 g)
  then show ?case by simp
next
  case (2 g x xs)
  have "set (dropWhile (\<lambda>y. g y = g x) xs) \<subseteq> set xs" by (rule set_dropWhileD[THEN subsetI])
  then show ?case using 2 by auto
qed

lemma groupby_group_key: "kg \<in> set (groupby g xs) \<Longrightarrow> \<forall>y\<in>set (snd kg). g y = fst kg"
proof (induction g xs rule: groupby.induct)
  case (1 g)
  then show ?case by simp
next
  case (2 g x xs)
  from "2.prems" consider
    "kg = (g x, x # takeWhile (\<lambda>y. g y = g x) xs)" |
    "kg \<in> set (groupby g (dropWhile (\<lambda>y. g y = g x) xs))" by auto
  then show ?case
  proof cases
    case 1
    then show ?thesis by (auto dest: set_takeWhileD)
  next
    case 2
    then show ?thesis by (rule "2.IH")
  qed
qed

lemma sorted_map_dropWhile_suffix:
  assumes "sorted (map kf xs)"
  shows "sorted (map kf (dropWhile Q xs))"
proof -
  have "map kf (dropWhile Q xs) = drop (length (takeWhile Q xs)) (map kf xs)"
    by (simp add: dropWhile_eq_drop drop_map)
  then show ?thesis using assms by (simp only: sorted_wrt_drop)
qed

lemma sorted_dropWhile_above:
  assumes s: "sorted (map kf (x # xs))"
    and eq: "\<And>y. y \<in> set xs \<Longrightarrow> kf y = kf x \<longleftrightarrow> g y = g x"
  shows "\<forall>y\<in>set (dropWhile (\<lambda>y. g y = g x) xs). g y \<noteq> g x"
proof (cases "dropWhile (\<lambda>y. g y = g x) xs")
  case Nil
  show ?thesis unfolding Nil by simp
next
  case (Cons y0 ys)
  have ne: "dropWhile (\<lambda>y. g y = g x) xs \<noteq> []" unfolding Cons by simp
  have "\<not> (g (hd (dropWhile (\<lambda>y. g y = g x) xs)) = g x)" using ne by (rule hd_dropWhile)
  then have y0: "g y0 \<noteq> g x" unfolding Cons by simp
  have sub: "z \<in> set xs" if "z \<in> set (y0 # ys)" for z
    using that set_dropWhileD[of z "\<lambda>y. g y = g x" xs] unfolding Cons by blast
  have above: "\<forall>z\<in>set xs. kf x \<le> kf z" using s by simp
  have "sorted (map kf xs)" using s by simp
  then have "sorted (map kf (dropWhile (\<lambda>y. g y = g x) xs))"
    by (rule sorted_map_dropWhile_suffix)
  then have sd: "\<forall>z\<in>set ys. kf y0 \<le> kf z" unfolding Cons by simp
  have y0xs: "y0 \<in> set xs" by (rule sub) simp
  have lo: "kf x \<le> kf y0" using above y0xs by blast
  have "kf y0 \<noteq> kf x" using y0 eq[OF y0xs] by blast
  then have lt: "kf x < kf y0" using lo by simp
  show ?thesis unfolding Cons
  proof
    fix y assume m: "y \<in> set (y0 # ys)"
    have "kf y0 \<le> kf y"
    proof (cases "y = y0")
      case True then show ?thesis by simp
    next
      case False
      then have "y \<in> set ys" using m by simp
      then show ?thesis using sd by blast
    qed
    then have "kf y \<noteq> kf x" using lt by simp
    moreover have "y \<in> set xs" using m by (rule sub)
    ultimately show "g y \<noteq> g x" using eq[of y] by blast
  qed
qed

lemma groupby_keys_distinct:
  assumes "sorted (map kf xs)"
    and "\<And>x y. x \<in> set xs \<Longrightarrow> y \<in> set xs \<Longrightarrow> kf x = kf y \<longleftrightarrow> g x = g y"
  shows "distinct (map fst (groupby g xs))"
  using assms
proof (induction g xs rule: groupby.induct)
  case (1 g)
  then show ?case by simp
next
  case (2 g x xs)
  let ?rest = "dropWhile (\<lambda>y. g y = g x) xs"
  have sub: "z \<in> set xs" if "z \<in> set ?rest" for z
    using that by (rule set_dropWhileD)
  have "sorted (map kf xs)" using "2.prems"(1) by simp
  then have sd: "sorted (map kf ?rest)" by (rule sorted_map_dropWhile_suffix)
  have d: "distinct (map fst (groupby g ?rest))"
  proof (rule "2.IH"[OF sd])
    fix a b assume "a \<in> set ?rest" "b \<in> set ?rest"
    then have "a \<in> set (x # xs)" "b \<in> set (x # xs)" using sub by simp_all
    then show "kf a = kf b \<longleftrightarrow> g a = g b" by (rule "2.prems"(2))
  qed
  have nx: "\<forall>y\<in>set ?rest. g y \<noteq> g x"
  proof (rule sorted_dropWhile_above[OF "2.prems"(1)])
    fix y assume "y \<in> set xs"
    then have "y \<in> set (x # xs)" "x \<in> set (x # xs)" by simp_all
    then show "kf y = kf x \<longleftrightarrow> g y = g x" by (rule "2.prems"(2))
  qed
  have "g x \<notin> g ` set ?rest"
  proof
    assume "g x \<in> g ` set ?rest"
    then obtain y where y: "y \<in> set ?rest" "g x = g y" by (rule imageE)
    from nx y(1) have "g y \<noteq> g x" by (rule bspec)
    then show False using y(2) by simp
  qed
  then have "g x \<notin> fst ` set (groupby g ?rest)" using groupby_keys_subset[of g ?rest] by blast
  then have "g x \<notin> set (map fst (groupby g ?rest))" by simp
  then show ?case using d by simp
qed

lemma equal_keys_share_index_list:
  assumes r: "get_unique_entities native table jkv m = Inr (ue, idxs)"
    and tev: "get_table_entity_values table m jkv = Inr tev"
    and inj: "inj native"
    and j: "j < length (zip_star (map snd tev))" "j' < length (zip_star (map snd tev))"
    and eq: "zip_star (map snd tev) ! j = zip_star (map snd tev) ! j'"
  shows "\<exists>i<length idxs. j \<in> set (idxs ! i) \<and> j' \<in> set (idxs ! i)"
proof -
  let ?rows = "zip_star (map snd tev)"
  let ?kf = "\<lambda>row::nat \<times> 'a list. map native (snd row)"
  let ?sorted = "sort_key ?kf (List.enumerate 0 ?rows)"
  let ?G = "groupby snd ?sorted"
  have idxs: "idxs = map (\<lambda>kg. map fst (snd kg)) ?G"
    using r tev by (auto simp: get_unique_entities_def Let_def split: if_splits)
  have srt: "sorted (map ?kf ?sorted)" by (rule sorted_sort_key)
  have kfeq: "?kf x = ?kf y \<longleftrightarrow> snd x = snd y" for x y :: "nat \<times> 'a list"
    using inj by (simp add: inj_map_eq_map)
  have d: "distinct (map fst ?G)"
    by (rule groupby_keys_distinct[OF srt]) (rule kfeq)
  have mem: "\<exists>a<length ?G. (i, ?rows ! i) \<in> set (snd (?G ! a))" if "i < length ?rows" for i
  proof -
    have "(i, ?rows ! i) \<in> set (List.enumerate 0 ?rows)"
      using that by (simp add: in_set_enumerate_eq)
    then have "(i, ?rows ! i) \<in> set ?sorted" by simp
    then have "(i, ?rows ! i) \<in> set (concat (map snd ?G))" by (simp only: groupby_concat)
    then obtain grp where "grp \<in> set (map snd ?G)" "(i, ?rows ! i) \<in> set grp" by auto
    then obtain a where "a < length (map snd ?G)" "map snd ?G ! a = grp"
      by (metis in_set_conv_nth)
    then show ?thesis using \<open>(i, ?rows ! i) \<in> set grp\<close> by auto
  qed
  from mem[OF j(1)] obtain a where a: "a < length ?G" "(j, ?rows ! j) \<in> set (snd (?G ! a))"
    by blast
  from mem[OF j(2)] obtain b where b: "b < length ?G" "(j', ?rows ! j') \<in> set (snd (?G ! b))"
    by blast
  have ka: "fst (?G ! a) = ?rows ! j"
    using groupby_group_key[of "?G ! a" snd ?sorted] a by fastforce
  have kb: "fst (?G ! b) = ?rows ! j'"
    using groupby_group_key[of "?G ! b" snd ?sorted] b by fastforce
  have eqab: "map fst ?G ! a = map fst ?G ! b" using ka kb eq a(1) b(1) by simp
  have la: "a < length (map fst ?G)" and lb: "b < length (map fst ?G)"
    using a(1) b(1) by simp_all
  have ab: "a = b" using nth_eq_iff_index_eq[OF d la lb] eqab by (rule iffD1)
  have "j \<in> set (idxs ! a)" using a unfolding idxs by force
  moreover have "j' \<in> set (idxs ! a)" using b ab unfolding idxs by force
  moreover have "a < length idxs" using a(1) unfolding idxs by simp
  ultimately show ?thesis by blast
qed

lemma get_unique_entities_rows:
  assumes r: "get_unique_entities native table jkv m = Inr (ue, idxs)"
    and tev: "get_table_entity_values table m jkv = Inr tev"
    and cols: "\<forall>col\<in>snd ` set jkv. length col = N"
  shows "length (zip_star (map snd tev)) = N" "0 < N" "idxs \<noteq> []"
proof -
  let ?rows = "zip_star (map snd tev)"
  let ?sorted = "sort_key (\<lambda>row. map native (snd row)) (List.enumerate 0 ?rows)"
  have g: "groupby snd ?sorted \<noteq> []"
    using r tev by (auto simp: get_unique_entities_def Let_def split: if_splits)
  have idxs: "idxs = map (\<lambda>kg. map fst (snd kg)) (groupby snd ?sorted)"
    using r tev by (auto simp: get_unique_entities_def Let_def split: if_splits)
  show "idxs \<noteq> []" using g unfolding idxs by simp
  from g have "?sorted \<noteq> []" by (simp only: groupby_Nil_iff not_False_eq_True)
  then have "length ?sorted \<noteq> 0" by (simp only: length_0_conv not_False_eq_True)
  then have rne: "length ?rows \<noteq> 0" by simp
  have ne: "tev \<noteq> []"
  proof
    assume "tev = []"
    then have "?rows = []" by (simp add: zip_star_Nil)
    then show False using rne by simp
  qed
  have cne: "map snd tev \<noteq> []" using ne by simp
  have clen: "\<forall>xs\<in>set (map snd tev). length xs = N"
  proof
    fix xs assume "xs \<in> set (map snd tev)"
    then have "xs \<in> snd ` set tev" by simp
    then have "xs \<in> snd ` set jkv"
      using get_table_entity_values_columns[OF tev] by (rule subsetD[rotated])
    then show "length xs = N" using cols by (rule bspec[rotated])
  qed
  show l: "length ?rows = N" by (rule zip_star_rect(1)[OF cne clen])
  show "0 < N" using rne l by simp
qed


text \<open>
  C2. For the unique-key set that the deduplication returns for a table (join-key values
  with distinct native values being distinct), and per-key feature data with one row per
  unique key (each row holding one timestamp, status and value per feature), the scatter
  step appends one vector per feature; for each unique-key position \<open>i\<close> and every row index
  \<open>j\<close> of its index list, the vector's value, status and timestamp at \<open>j\<close> are those of
  position \<open>i\<close>, unchanged. Consequently any two rows of the batch with the same composite
  key receive identical values, statuses and timestamps for every feature of the table.
\<close>

theorem populate_response_by_key:
  assumes dedup: "get_unique_entities native table join_key_values entity_name_to_join_key_map
                    = Inr (unique_entities, indexes)"
    and keys: "get_table_entity_values table entity_name_to_join_key_map join_key_values
                 = Inr table_entity_values"
    and batch: "\<forall>col\<in>snd ` set join_key_values. length col = N"
    and inj: "inj native"
    and one_per_key: "length feature_data = length indexes"
    and rect: "\<forall>row\<in>set feature_data.
                 length (fst row) = n \<and> length (fst (snd row)) = n \<and> length (snd (snd row)) = n"
  shows "\<exists>fvs.
     populate_response_from_feature_data feature_data indexes online_features_response
       full_feature_names requested_features table =
       Inr \<lparr>feature_names = feature_names online_features_response @
               map (\<lambda>feature_name.
                      if full_feature_names
                      then name_to_use (projection table) @ ''__'' @ feature_name
                      else feature_name) requested_features,
            results = results online_features_response @ fvs\<rparr> \<and>
     length fvs = n \<and>
     (\<forall>k<n. \<forall>i<length indexes. \<forall>j\<in>set (indexes ! i).
        fv_values (fvs ! k) ! j = snd (snd (feature_data ! i)) ! k \<and>
        statuses (fvs ! k) ! j = fst (snd (feature_data ! i)) ! k \<and>
        event_timestamps (fvs ! k) ! j = fst (feature_data ! i) ! k) \<and>
     (\<forall>k<n. \<forall>j<N. \<forall>j'<N.
        zip_star (map snd table_entity_values) ! j = zip_star (map snd table_entity_values) ! j' \<longrightarrow>
        fv_values (fvs ! k) ! j = fv_values (fvs ! k) ! j' \<and>
        statuses (fvs ! k) ! j = statuses (fvs ! k) ! j' \<and>
        event_timestamps (fvs ! k) ! j = event_timestamps (fvs ! k) ! j')"
proof -
  have p: "partitions indexes N" by (rule get_unique_entities_returned(1)[OF dedup batch])
  note rows = get_unique_entities_rows[OF dedup keys batch]
  have ne: "feature_data \<noteq> []" using one_per_key rows(3) by auto
  from populate_response_scatters[OF p ne one_per_key rect] obtain fvs where
    f: "populate_response_from_feature_data feature_data indexes online_features_response
       full_feature_names requested_features table =
       Inr \<lparr>feature_names = feature_names online_features_response @
               map (\<lambda>feature_name.
                      if full_feature_names
                      then name_to_use (projection table) @ ''__'' @ feature_name
                      else feature_name) requested_features,
            results = results online_features_response @ fvs\<rparr>"
      "length fvs = n"
      "\<forall>k<n. \<forall>i<length indexes. \<forall>j\<in>set (indexes ! i).
        fv_values (fvs ! k) ! j = snd (snd (feature_data ! i)) ! k \<and>
        statuses (fvs ! k) ! j = fst (snd (feature_data ! i)) ! k \<and>
        event_timestamps (fvs ! k) ! j = fst (feature_data ! i) ! k"
      "\<forall>k<n. \<forall>i<length indexes. \<forall>j\<in>set (indexes ! i). \<forall>j'\<in>set (indexes ! i).
        fv_values (fvs ! k) ! j = fv_values (fvs ! k) ! j' \<and>
        statuses (fvs ! k) ! j = statuses (fvs ! k) ! j' \<and>
        event_timestamps (fvs ! k) ! j = event_timestamps (fvs ! k) ! j'"
    by blast
  have bykey: "\<forall>k<n. \<forall>j<N. \<forall>j'<N.
        zip_star (map snd table_entity_values) ! j = zip_star (map snd table_entity_values) ! j' \<longrightarrow>
        fv_values (fvs ! k) ! j = fv_values (fvs ! k) ! j' \<and>
        statuses (fvs ! k) ! j = statuses (fvs ! k) ! j' \<and>
        event_timestamps (fvs ! k) ! j = event_timestamps (fvs ! k) ! j'"
  proof (intro allI impI)
    fix k j j'
    assume k: "k < n" and j: "j < N" and j': "j' < N"
      and e: "zip_star (map snd table_entity_values) ! j
                = zip_star (map snd table_entity_values) ! j'"
    have jl: "j < length (zip_star (map snd table_entity_values))"
      and jl': "j' < length (zip_star (map snd table_entity_values))"
      using j j' rows(1) by simp_all
    from equal_keys_share_index_list[OF dedup keys inj jl jl' e] obtain i where
      i: "i < length indexes" "j \<in> set (indexes ! i)" "j' \<in> set (indexes ! i)" by blast
    show "fv_values (fvs ! k) ! j = fv_values (fvs ! k) ! j' \<and>
        statuses (fvs ! k) ! j = statuses (fvs ! k) ! j' \<and>
        event_timestamps (fvs ! k) ! j = event_timestamps (fvs ! k) ! j'"
      using f(4) k i by blast
  qed
  show ?thesis
    by (rule exI[of _ fvs]) (use f(1,2,3) bykey in blast)
qed

theorem populate_response_by_key_witness:
  "populate_response_from_feature_data
     [([Timestamp, Timestamp], [PRESENT, NOT_FOUND], [7::int, 0]),
      ([Timestamp, Timestamp], [NOT_FOUND, NOT_FOUND], [0, 0])]
     [[0, 1], [2]] \<lparr>feature_names = [], results = []\<rparr> True [''conv_rate'', ''acc_rate'']
     driver_stats
   = Inr \<lparr>feature_names = [''driver_stats__conv_rate'', ''driver_stats__acc_rate''],
          results =
            [\<lparr>fv_values = [7, 7, 0], statuses = [PRESENT, PRESENT, NOT_FOUND],
               event_timestamps = [Timestamp, Timestamp, Timestamp]\<rparr>,
             \<lparr>fv_values = [0, 0, 0], statuses = [NOT_FOUND, NOT_FOUND, NOT_FOUND],
               event_timestamps = [Timestamp, Timestamp, Timestamp]\<rparr>]\<rparr>"
proof -
  let ?fd = "[([Timestamp, Timestamp], [PRESENT, NOT_FOUND], [7::int, 0]),
              ([Timestamp, Timestamp], [NOT_FOUND, NOT_FOUND], [0, 0])]"
  have h1: "get_unique_entities (\<lambda>x::int. x) driver_stats [(''driver_id'', [1, 1, 2])]
              [''driver'' \<mapsto> ''driver_id'']
            = Inr ([[(''driver_id'', 1)], [(''driver_id'', 2)]], [[0, 1], [2]])"
    by code_simp
  have h2: "get_table_entity_values driver_stats [''driver'' \<mapsto> ''driver_id'']
              [(''driver_id'', [1::int, 1, 2])] = Inr [(''driver_id'', [1, 1, 2])]"
    by code_simp
  have h3: "\<forall>col\<in>snd ` set [(''driver_id'', [1::int, 1, 2])]. length col = 3" by simp
  have h4: "inj (\<lambda>x::int. x)" by simp
  have h5: "length ?fd = length [[0::nat, 1], [2]]" by simp
  have h6: "\<forall>row\<in>set ?fd.
      length (fst row) = 2 \<and> length (fst (snd row)) = 2 \<and> length (snd (snd row)) = 2"
    by simp
  have e: ?thesis by code_simp
  show ?thesis
    using populate_response_by_key[OF h1 h2 h3 h4 h5 h6] e by simp
qed

end
